theory Spec2Isabelle
  imports Main
begin

section \<open>The discovery page and the notebook-columns store\<close>

text \<open>
  The development follows two source files:
  \<^item> \<^verbatim>\<open>src/frontend/src/app/(dashboard)/discovery/page.tsx\<close>: the component
    \<^verbatim>\<open>OsukaPage\<close>, with the polling effect (\<^verbatim>\<open>poll\<close>), the submit handler
    (\<^verbatim>\<open>handleRun\<close>) and the log panel;
  \<^item> \<^verbatim>\<open>src/frontend/src/lib/stores/notebook-columns-store.ts\<close>: the store
    \<^verbatim>\<open>useNotebookColumnsStore\<close>;
  and the types of \<^verbatim>\<open>src/frontend/src/lib/api/osuka.ts\<close>.

  Strings are \<^typ>\<open>string\<close>; a character stands for a UTF-16 code unit below 256.
  An optional field (\<^verbatim>\<open>x?: T\<close>, \<^verbatim>\<open>T | null\<close>) is a \<^typ>\<open>'a option\<close>.
\<close>

subsection \<open>Types of the transport client (\<^verbatim>\<open>lib/api/osuka.ts\<close>)\<close>

record product =
  brand_key :: "string option"
  url :: string
  title :: "string option"
  snippet :: "string option"

text \<open>A JavaScript Number, as far as \<^verbatim>\<open>parseInt\<close> can return one: NaN, an integer
  value (both zeros are \<open>Num 0\<close>), or an infinity.\<close>

datatype js_number = NaN | Num int | PosInfinity | NegInfinity

record OsukaRunRequest =
  req_category :: string
  req_market :: "string option"
  allow_external_brands :: "bool option"
  max_total :: "js_number option"
  max_shopee_products :: "js_number option"
  prefer_pdfs :: "bool option"
  preferred_brands :: "string list option"

text \<open>Field \<^verbatim>\<open>logs\<close> of \<^verbatim>\<open>OsukaRunResponse\<close> is \<open>result_logs\<close> here, since the
  status response has a field of the same name.\<close>

record OsukaRunResponse =
  notebook_id :: string
  sources_added :: int
  table_note_id :: string
  json_note_id :: string
  shopee_summary_note_id :: "string option"
  shopee_data_note_id :: "string option"
  shopee_count :: "int option"
  chat_session_id :: "string option"
  products :: "product list"
  result_logs :: "string list option"
  markdown_table :: "string option"

record OsukaRunStartResponse =
  start_run_id :: string

text \<open>The fields of \<^verbatim>\<open>OsukaRunStatusResponse\<close>: \<^verbatim>\<open>run_id\<close>, \<^verbatim>\<open>status\<close>,
  \<^verbatim>\<open>logs\<close>, \<^verbatim>\<open>result?\<close>, \<^verbatim>\<open>error?\<close>. The status is any string.\<close>

record OsukaRunStatusResponse =
  run_id :: string
  status :: string
  logs :: "string list"
  result :: "OsukaRunResponse option"
  error :: "string option"

text \<open>A value thrown by a transport call: an instance of \<^verbatim>\<open>Error\<close> with its
  message, or any other value.\<close>

datatype thrown = Error string | NonError

subsection \<open>The translation table\<close>

text \<open>The entries of the table \<^verbatim>\<open>t\<close> (hook \<^verbatim>\<open>useTranslation\<close>) the two functions
  read. The table itself is not part of the modelled files: it is a parameter.\<close>

record translation_table =
  common_error :: string
  common_required :: string
  common_success :: string
  logsStarting :: string
  logsRequestSent :: string
  logsResponseReceived :: string

subsection \<open>JavaScript string and number helpers\<close>

text \<open>White space as \<^verbatim>\<open>String.prototype.trim\<close> and \<^verbatim>\<open>parseInt\<close> strip it, among the
  code units below 256: TAB, LF, VT, FF, CR, SP, NBSP.\<close>

definition is_ws :: "char \<Rightarrow> bool" where
  "is_ws c = (of_char c \<in> {9, 10, 11, 12, 13, 32, 160 :: nat})"

definition trim :: "string \<Rightarrow> string" where
  "trim s = rev (dropWhile is_ws (rev (dropWhile is_ws s)))"

text \<open>\<^verbatim>\<open>s.split(',')\<close>: the pieces between commas; the empty string gives one empty
  piece.\<close>

fun split_comma_acc :: "string \<Rightarrow> string \<Rightarrow> string list" where
  "split_comma_acc acc [] = [rev acc]"
| "split_comma_acc acc (c # cs) =
     (if c = CHR '','' then rev acc # split_comma_acc [] cs
      else split_comma_acc (c # acc) cs)"

definition split_comma :: "string \<Rightarrow> string list" where
  "split_comma s = split_comma_acc [] s"

definition is_digit :: "char \<Rightarrow> bool" where
  "is_digit c = (48 \<le> (of_char c :: nat) \<and> (of_char c :: nat) \<le> 57)"

definition digit_val :: "char \<Rightarrow> nat" where
  "digit_val c = of_char c - 48"

definition digits_value :: "string \<Rightarrow> nat" where
  "digits_value z = foldl (\<lambda>a c. 10 * a + digit_val c) 0 z"

text \<open>The number of binary digits of a natural number.\<close>

fun bitlen :: "nat \<Rightarrow> nat" where
  "bitlen n = (if n = 0 then 0 else Suc (bitlen (n div 2)))"

declare bitlen.simps [simp del]

text \<open>The double nearest to a natural number (round to nearest, ties to even, 53
  significant bits); \<open>None\<close> is the overflow to Infinity.\<close>

definition to_double :: "nat \<Rightarrow> nat option" where
  "to_double n =
     (let k = bitlen n in
      if k \<le> 53 then Some n
      else
        let sh = k - 53;
            q = n div 2 ^ sh;
            r = n mod 2 ^ sh;
            half = 2 ^ (sh - 1);
            q' = (if r > half \<or> (r = half \<and> odd q) then q + 1 else q);
            v = q' * 2 ^ sh
        in if v \<ge> 2 ^ 1024 then None else Some v)"

text \<open>\<^verbatim>\<open>Number.parseInt(s, 10)\<close>: strip leading white space, read a sign, take the
  longest prefix of decimal digits; no digit gives NaN.\<close>

definition parseInt10 :: "string \<Rightarrow> js_number" where
  "parseInt10 s =
     (let S = dropWhile is_ws s;
          neg = (case S of [] \<Rightarrow> False | c # _ \<Rightarrow> c = CHR ''-'');
          S' = (case S of [] \<Rightarrow> S
                | c # cs \<Rightarrow> if c = CHR ''+'' \<or> c = CHR ''-'' then cs else S);
          Z = takeWhile is_digit S'
      in if Z = [] then NaN
         else (case to_double (digits_value Z) of
                 None \<Rightarrow> if neg then NegInfinity else PosInfinity
               | Some v \<Rightarrow> Num (if neg then - int v else int v)))"

definition isFinite :: "js_number \<Rightarrow> bool" where
  "isFinite x = (case x of Num _ \<Rightarrow> True | _ \<Rightarrow> False)"

text \<open>\<^verbatim>\<open>x > 0\<close> on Numbers.\<close>

definition gt_zero :: "js_number \<Rightarrow> bool" where
  "gt_zero x = (case x of Num n \<Rightarrow> n > 0 | PosInfinity \<Rightarrow> True | _ \<Rightarrow> False)"

text \<open>\<^verbatim>\<open>x || d\<close> on a string that may be absent: \<^verbatim>\<open>null\<close>, \<^verbatim>\<open>undefined\<close> and the
  empty string are falsy.\<close>

definition or_else :: "string option \<Rightarrow> string \<Rightarrow> string" where
  "or_else x d = (case x of None \<Rightarrow> d | Some s \<Rightarrow> if s = [] then d else s)"

subsection \<open>The component state of \<^verbatim>\<open>OsukaPage\<close>\<close>

text \<open>Type \<^verbatim>\<open>RunState\<close>; its field \<^verbatim>\<open>error\<close> is \<open>rs_error\<close> here.\<close>

record RunState =
  response :: "OsukaRunResponse option"
  rs_error :: "string option"

record page_state =
  category :: string
  market :: string
  allowExternal :: bool
  preferPdfs :: bool
  preferredBrands :: string
  maxTotal :: string
  loading :: bool
  runState :: RunState
  debugOpen :: bool
  localLogs :: "string list"
  runId :: "string option"
  runStatus :: "OsukaRunStatusResponse option"

text \<open>The initial values of the \<^verbatim>\<open>useState\<close> calls.\<close>

definition empty_RunState :: RunState where
  "empty_RunState = \<lparr>response = None, rs_error = None\<rparr>"

definition initial_page :: page_state where
  "initial_page =
     \<lparr>category = [], market = [], allowExternal = True, preferPdfs = False,
      preferredBrands = [], maxTotal = ''10'', loading = False,
      runState = empty_RunState, debugOpen = True, localLogs = [],
      runId = None, runStatus = None\<rparr>"

subsection \<open>\<^verbatim>\<open>poll\<close>, after the status request has settled\<close>

text \<open>
  The body of \<^verbatim>\<open>poll\<close> from the point where \<^verbatim>\<open>await osukaApi.status(runId)\<close> settles:
  \<open>Inr st\<close> is the response, \<open>Inl e\<close> the value thrown. The second argument is the
  value of the variable \<^verbatim>\<open>cancelled\<close> of the effect run the call belongs to. The
  result is \<open>None\<close> when the body returns without calling a state setter, and
  otherwise the component state after the \<^verbatim>\<open>setRunStatus\<close>, \<^verbatim>\<open>setRunState\<close> and
  \<^verbatim>\<open>setRunId\<close> calls of the branch taken.
\<close>

definition poll_settled ::
  "translation_table \<Rightarrow> bool \<Rightarrow> thrown + OsukaRunStatusResponse \<Rightarrow> page_state
     \<Rightarrow> page_state option" where
  "poll_settled t cancelled res p =
     (case res of
        Inr st \<Rightarrow>
          if cancelled then None
          else
            let p1 = p\<lparr>runStatus := Some st\<rparr> in
            if status st = ''completed'' \<and> result st \<noteq> None then
              Some (p1\<lparr>runState := \<lparr>response = result st, rs_error = None\<rparr>,
                       runId := None\<rparr>)
            else if status st = ''failed'' then
              Some (p1\<lparr>runState :=
                         \<lparr>response = None,
                          rs_error = Some (or_else (error st) (common_error t))\<rparr>,
                       runId := None\<rparr>)
            else Some p1
      | Inl err \<Rightarrow>
          if \<not> cancelled then
            let message = (case err of Error m \<Rightarrow> m | NonError \<Rightarrow> common_error t) in
            Some (p\<lparr>runState := \<lparr>response = None, rs_error = Some message\<rparr>,
                    runId := None\<rparr>)
          else None)"

subsection \<open>The log panel\<close>

text \<open>The condition under which the log card is rendered, and the lines it shows: the
  \<^verbatim>\<open>localLogs.map\<close> rows, then the \<^verbatim>\<open>runStatus?.logs?.map\<close> rows.\<close>

definition remote_logs :: "page_state \<Rightarrow> string list" where
  "remote_logs p = (case runStatus p of None \<Rightarrow> [] | Some st \<Rightarrow> logs st)"

definition logs_card_shown :: "page_state \<Rightarrow> bool" where
  "logs_card_shown p =
     (length (localLogs p) > 0
      \<or> length (remote_logs p) \<noteq> 0
      \<or> (case response (runState p) of
            None \<Rightarrow> False
          | Some r \<Rightarrow> (case result_logs r of None \<Rightarrow> False | Some l \<Rightarrow> length l \<noteq> 0)))"

definition displayed_logs :: "page_state \<Rightarrow> string list" where
  "displayed_logs p = (if logs_card_shown p then localLogs p @ remote_logs p else [])"

subsection \<open>The notebook-columns store\<close>

record NotebookColumnsState =
  sourcesCollapsed :: bool
  notesCollapsed :: bool
  marketCollapsed :: bool

text \<open>A partial state, as the argument of zustand's \<^verbatim>\<open>set\<close>; \<^verbatim>\<open>set\<close> merges it into
  the state.\<close>

record partial_columns =
  p_sources :: "bool option"
  p_notes :: "bool option"
  p_market :: "bool option"

definition set_columns :: "partial_columns \<Rightarrow> NotebookColumnsState \<Rightarrow> NotebookColumnsState" where
  "set_columns u s =
     \<lparr>sourcesCollapsed = (case p_sources u of None \<Rightarrow> sourcesCollapsed s | Some b \<Rightarrow> b),
      notesCollapsed = (case p_notes u of None \<Rightarrow> notesCollapsed s | Some b \<Rightarrow> b),
      marketCollapsed = (case p_market u of None \<Rightarrow> marketCollapsed s | Some b \<Rightarrow> b)\<rparr>"

definition initial_columns :: NotebookColumnsState where
  "initial_columns = \<lparr>sourcesCollapsed = False, notesCollapsed = False, marketCollapsed = False\<rparr>"

definition toggleSources :: "NotebookColumnsState \<Rightarrow> NotebookColumnsState" where
  "toggleSources s =
     set_columns \<lparr>p_sources = Some (\<not> sourcesCollapsed s), p_notes = None, p_market = None\<rparr> s"

definition toggleNotes :: "NotebookColumnsState \<Rightarrow> NotebookColumnsState" where
  "toggleNotes s =
     set_columns \<lparr>p_sources = None, p_notes = Some (\<not> notesCollapsed s), p_market = None\<rparr> s"

definition toggleMarket :: "NotebookColumnsState \<Rightarrow> NotebookColumnsState" where
  "toggleMarket s =
     set_columns \<lparr>p_sources = None, p_notes = None, p_market = Some (\<not> marketCollapsed s)\<rparr> s"

definition setSources :: "bool \<Rightarrow> NotebookColumnsState \<Rightarrow> NotebookColumnsState" where
  "setSources collapsed s =
     set_columns \<lparr>p_sources = Some collapsed, p_notes = None, p_market = None\<rparr> s"

definition setNotes :: "bool \<Rightarrow> NotebookColumnsState \<Rightarrow> NotebookColumnsState" where
  "setNotes collapsed s =
     set_columns \<lparr>p_sources = None, p_notes = Some collapsed, p_market = None\<rparr> s"

definition setMarket :: "bool \<Rightarrow> NotebookColumnsState \<Rightarrow> NotebookColumnsState" where
  "setMarket collapsed s =
     set_columns \<lparr>p_sources = None, p_notes = None, p_market = Some collapsed\<rparr> s"

subsection \<open>The component in its environment\<close>

text \<open>
  What surrounds the component state: the state as last rendered, the effect runs with
  their \<^verbatim>\<open>cancelled\<close> variables and interval timers, the transport calls issued and
  still in flight, the toasts, and a clock in milliseconds.

  A state setter only queues an update: \<open>page\<close> is the state with every queued update
  applied, and \<open>rendered\<close> is the state of the last render, which the button's
  \<^verbatim>\<open>disabled\<close> attribute shows. React re-renders, and runs the effect and its cleanup,
  in a later step of its own (\<open>render\<close> below); between the setter calls of a callback
  and that step other callbacks can run.

  Each run of the effect body that passes the guard \<^verbatim>\<open>if (!runId) return\<close> is a
  \<^emph>\<open>session\<close>: it owns one variable \<^verbatim>\<open>cancelled\<close> and one interval timer. A
  session is named by its position in the list of sessions. \<open>interval\<close> is the time
  of the timer's next firing, and \<open>None\<close> once \<^verbatim>\<open>clearInterval\<close> has run.
\<close>

datatype toast = ToastError string | ToastSuccess string

record session =
  sess_runId :: string
  cancelled :: bool
  interval :: "nat option"

text \<open>A status call: the time of the call, the session whose \<^verbatim>\<open>poll\<close> made it, and
  the run identifier asked for.\<close>

type_synonym status_call = "nat \<times> nat \<times> string"

record world =
  page :: page_state
  rendered :: page_state
  mounted :: bool
  sessions :: "session list"
  active :: "nat option"
  effect_deps :: "string option"
  now :: nat
  run_calls :: "OsukaRunRequest list"
  pending_run :: nat
  status_calls :: "status_call list"
  pending_status :: "nat list"
  toasts :: "toast list"

text \<open>\<open>active\<close> is the session whose cleanup function React holds; \<open>effect_deps\<close> is
  the value of \<^verbatim>\<open>runId\<close> at the last run of the effect (the other dependency,
  \<^verbatim>\<open>t.common.error\<close>, is fixed with the table). \<open>pending_run\<close> counts the submit calls
  in flight, \<open>pending_status\<close> lists the sessions of the status calls in flight.\<close>

definition initial_world :: world where
  "initial_world =
     \<lparr>page = initial_page, rendered = initial_page, mounted = True, sessions = [],
      active = None,
      effect_deps = None, now = 0, run_calls = [], pending_run = 0,
      status_calls = [], pending_status = [], toasts = []\<rparr>"

text \<open>The cleanup function the effect returns: \<^verbatim>\<open>cancelled = true\<close> and
  \<^verbatim>\<open>clearInterval(interval)\<close>, on the variables of its own session.\<close>

definition cleanup :: "world \<Rightarrow> world" where
  "cleanup w =
     (case active w of
        None \<Rightarrow> w
      | Some i \<Rightarrow>
          w\<lparr>sessions := (sessions w)[i := (sessions w ! i)\<lparr>cancelled := True, interval := None\<rparr>],
            active := None\<rparr>)"

text \<open>\<^verbatim>\<open>poll\<close> up to its \<^verbatim>\<open>await\<close>: the call \<^verbatim>\<open>osukaApi.status(runId)\<close> is issued.\<close>

definition poll_call :: "nat \<Rightarrow> string \<Rightarrow> world \<Rightarrow> world" where
  "poll_call i rid w =
     w\<lparr>status_calls := status_calls w @ [(now w, i, rid)],
       pending_status := pending_status w @ [i]\<rparr>"

text \<open>The effect body: nothing when \<^verbatim>\<open>runId\<close> is falsy; otherwise a new session with
  \<^verbatim>\<open>cancelled = false\<close>, \<^verbatim>\<open>setInterval(poll, 2000)\<close>, and a first call of \<^verbatim>\<open>poll\<close>.\<close>

definition effect_body :: "world \<Rightarrow> world" where
  "effect_body w =
     (case runId (page w) of
        None \<Rightarrow> w
      | Some rid \<Rightarrow>
          if rid = [] then w
          else
            let i = length (sessions w);
                w1 = w\<lparr>sessions := sessions w @
                          [\<lparr>sess_runId = rid, cancelled = False,
                            interval = Some (now w + 2000)\<rparr>],
                        active := Some i\<rparr>
            in poll_call i rid w1)"

text \<open>After a render React compares the dependencies; when \<^verbatim>\<open>runId\<close> has changed it
  runs the cleanup of the previous effect run and then the effect body.\<close>

definition run_effects :: "world \<Rightarrow> world" where
  "run_effects w =
     (if effect_deps w = runId (page w) then w
      else effect_body ((cleanup w)\<lparr>effect_deps := runId (page w)\<rparr>))"

text \<open>The setter calls of one callback, \<open>p\<close> being the state with them applied: the
  updates are queued, nothing is rendered and no effect runs. React drops the state
  updates of a component that is no longer mounted.\<close>

definition set_state :: "page_state \<Rightarrow> world \<Rightarrow> world" where
  "set_state p w = (if mounted w then w\<lparr>page := p\<rparr> else w)"

text \<open>React re-renders the component with the queued updates and flushes its effects:
  only now does the button show the new \<^verbatim>\<open>loading\<close>, and only now does the cleanup
  of an effect whose \<^verbatim>\<open>runId\<close> has changed set \<^verbatim>\<open>cancelled\<close> and clear the timer.\<close>

definition render :: "world \<Rightarrow> world" where
  "render w = (if mounted w then run_effects (w\<lparr>rendered := page w\<rparr>) else w)"

subsection \<open>\<^verbatim>\<open>handleRun\<close>\<close>

text \<open>The argument of \<^verbatim>\<open>osukaApi.run\<close>.\<close>

definition build_request :: "page_state \<Rightarrow> OsukaRunRequest" where
  "build_request p =
     (let preferredList = filter (\<lambda>item. item \<noteq> []) (map trim (split_comma (preferredBrands p)));
          maxTotalNumber = parseInt10 (maxTotal p)
      in \<lparr>req_category = trim (category p),
          req_market = (if trim (market p) = [] then None else Some (trim (market p))),
          allow_external_brands = Some (allowExternal p),
          max_total = Some (if isFinite maxTotalNumber \<and> gt_zero maxTotalNumber
                            then maxTotalNumber else Num 10),
          max_shopee_products = Some (Num 10),
          prefer_pdfs = Some (preferPdfs p),
          preferred_brands = (if length preferredList \<noteq> 0 then Some preferredList else None)\<rparr>)"

text \<open>\<^verbatim>\<open>handleRun\<close> up to its \<^verbatim>\<open>await\<close>: the check of the category, the four state
  resets, the second local log line, and the submit call. It does not read
  \<^verbatim>\<open>loading\<close>. The form fields it reads are written only by the input handlers, which
  are not among the events here, so their rendered values are those of \<open>page\<close>.\<close>

definition handleRun :: "translation_table \<Rightarrow> world \<Rightarrow> world" where
  "handleRun t w =
     (let p = page w in
      if trim (category p) = [] then
        w\<lparr>toasts := toasts w @ [ToastError (common_required t)]\<rparr>
      else
        let p' = p\<lparr>loading := True, runState := empty_RunState,
                   localLogs := [logsStarting t] @ [logsRequestSent t],
                   runStatus := None\<rparr>
        in set_state p' (w\<lparr>run_calls := run_calls w @ [build_request p],
                        pending_run := Suc (pending_run w)\<rparr>))"

text \<open>\<^verbatim>\<open>handleRun\<close> from the point where \<^verbatim>\<open>await osukaApi.run(...)\<close> settles, with
  the \<^verbatim>\<open>finally\<close> block.\<close>

definition handleRun_settled ::
  "translation_table \<Rightarrow> thrown + OsukaRunStartResponse \<Rightarrow> world \<Rightarrow> world" where
  "handleRun_settled t res w =
     (let p = page w in
      case res of
        Inr r \<Rightarrow>
          set_state (p\<lparr>runId := Some (start_run_id r),
                    localLogs := localLogs p @ [logsResponseReceived t],
                    loading := False\<rparr>)
                 (w\<lparr>toasts := toasts w @ [ToastSuccess (common_success t)]\<rparr>)
      | Inl err \<Rightarrow>
          let message = (case err of Error m \<Rightarrow> m | NonError \<Rightarrow> common_error t) in
          set_state (p\<lparr>runState := \<lparr>response = None, rs_error = Some message\<rparr>,
                    loading := False\<rparr>)
                 (w\<lparr>toasts := toasts w @ [ToastError message]\<rparr>))"

subsection \<open>Events\<close>

text \<open>A click on the Run button: the button is rendered with \<^verbatim>\<open>disabled={loading}\<close>
  and \<^verbatim>\<open>onClick={handleRun}\<close>, and a disabled button does not call its handler. The
  attribute is the \<^verbatim>\<open>loading\<close> of the last render: a click that comes after
  \<^verbatim>\<open>setLoading(true)\<close> and before the re-render still calls \<^verbatim>\<open>handleRun\<close>.\<close>

definition click_run :: "translation_table \<Rightarrow> world \<Rightarrow> world" where
  "click_run t w = (if \<not> mounted w \<or> loading (rendered w) then w else handleRun t w)"

definition run_settled ::
  "translation_table \<Rightarrow> thrown + OsukaRunStartResponse \<Rightarrow> world \<Rightarrow> world" where
  "run_settled t res w =
     (if pending_run w = 0 then w
      else handleRun_settled t res (w\<lparr>pending_run := pending_run w - 1\<rparr>))"

text \<open>A status call of session \<open>i\<close> settles: \<^verbatim>\<open>poll\<close> resumes with the \<^verbatim>\<open>cancelled\<close>
  variable of that session, as it is at that moment. Without a call of that session in
  flight nothing happens.\<close>

definition status_settled ::
  "translation_table \<Rightarrow> nat \<Rightarrow> thrown + OsukaRunStatusResponse \<Rightarrow> world \<Rightarrow> world" where
  "status_settled t i res w =
     (if i \<notin> set (pending_status w) \<or> length (sessions w) \<le> i then w
      else
        let w1 = w\<lparr>pending_status := remove1 i (pending_status w)\<rparr> in
        case poll_settled t (cancelled (sessions w ! i)) res (page w) of
          None \<Rightarrow> w1
        | Some p' \<Rightarrow> set_state p' w1)"

text \<open>The number of firings up to time \<open>T\<close> of an interval timer of period 2000 whose
  next firing is at \<open>nxt\<close>.\<close>

definition due_ticks :: "nat \<Rightarrow> nat \<Rightarrow> nat" where
  "due_ticks nxt T = (if nxt \<le> T then Suc ((T - nxt) div 2000) else 0)"

text \<open>Time passes up to \<open>T\<close>: every registered interval timer fires at its due times,
  each firing calls \<^verbatim>\<open>poll\<close>, which issues a status call whether or not an earlier
  one is still in flight. The second argument is the position of the first session of
  the list; the calls are listed session by session.\<close>

fun advance_sessions :: "nat \<Rightarrow> nat \<Rightarrow> session list \<Rightarrow> session list \<times> status_call list" where
  "advance_sessions T i [] = ([], [])"
| "advance_sessions T i (s # ss) =
     (let (ss', calls') = advance_sessions T (Suc i) ss in
      case interval s of
        None \<Rightarrow> (s # ss', calls')
      | Some nxt \<Rightarrow>
          let k = due_ticks nxt T in
          (s\<lparr>interval := Some (nxt + 2000 * k)\<rparr> # ss',
           map (\<lambda>j. (nxt + 2000 * j, i, sess_runId s)) [0..<k] @ calls'))"

definition advance :: "nat \<Rightarrow> world \<Rightarrow> world" where
  "advance d w =
     (let T = now w + d;
          (ss, calls) = advance_sessions T 0 (sessions w)
      in w\<lparr>now := T, sessions := ss,
           status_calls := status_calls w @ calls,
           pending_status := pending_status w @ map (\<lambda>c. fst (snd c)) calls\<rparr>)"

text \<open>The component is unmounted: React runs the cleanup of the effect.\<close>

definition unmount :: "world \<Rightarrow> world" where
  "unmount w = (cleanup w)\<lparr>mounted := False\<rparr>"

text \<open>The events of a polling session (a status call settles, time passes, React
  re-renders), and all events.\<close>

datatype poll_event =
    StatusSettled nat "thrown + OsukaRunStatusResponse"
  | Advance nat
  | Render

datatype event =
    Poll poll_event
  | ClickRun
  | RunSettled "thrown + OsukaRunStartResponse"
  | Unmount

fun poll_step :: "translation_table \<Rightarrow> poll_event \<Rightarrow> world \<Rightarrow> world" where
  "poll_step t (StatusSettled i res) w = status_settled t i res w"
| "poll_step t (Advance d) w = advance d w"
| "poll_step t Render w = render w"

fun step :: "translation_table \<Rightarrow> event \<Rightarrow> world \<Rightarrow> world" where
  "step t (Poll e) w = poll_step t e w"
| "step t ClickRun w = click_run t w"
| "step t (RunSettled res) w = run_settled t res w"
| "step t Unmount w = unmount w"

definition run_polls :: "translation_table \<Rightarrow> poll_event list \<Rightarrow> world \<Rightarrow> world" where
  "run_polls t es w = foldl (\<lambda>w e. poll_step t e w) w es"

definition run_events :: "translation_table \<Rightarrow> event list \<Rightarrow> world \<Rightarrow> world" where
  "run_events t es w = foldl (\<lambda>w e. step t e w) w es"

subsection \<open>The status of a run, in the specification's words\<close>

text \<open>
  The component keeps no status field. The specification's status
  \<open>idle | submitting | polling | completed | failed\<close> is read off the component state:
  completed when \<^verbatim>\<open>runState.response\<close> is set, failed when \<^verbatim>\<open>runState.error\<close> is set,
  polling when \<^verbatim>\<open>runId\<close> is set, submitting when \<^verbatim>\<open>loading\<close> is true, idle otherwise.
\<close>

datatype run_status = Idle | Submitting | Polling | Completed | Failed

definition spec_status :: "page_state \<Rightarrow> run_status" where
  "spec_status p =
     (if response (runState p) \<noteq> None then Completed
      else if rs_error (runState p) \<noteq> None then Failed
      else if runId p \<noteq> None then Polling
      else if loading p then Submitting
      else Idle)"

fun rank :: "run_status \<Rightarrow> nat" where
  "rank Idle = 0"
| "rank Submitting = 1"
| "rank Polling = 2"
| "rank Completed = 3"
| "rank Failed = 3"

text \<open>A settled status call is terminal when \<^verbatim>\<open>poll\<close> takes one of its three branches
  that call \<^verbatim>\<open>setRunState\<close> and \<^verbatim>\<open>setRunId(null)\<close>.\<close>

definition is_terminal :: "thrown + OsukaRunStatusResponse \<Rightarrow> bool" where
  "is_terminal res =
     (case res of
        Inl _ \<Rightarrow> True
      | Inr st \<Rightarrow> (status st = ''completed'' \<and> result st \<noteq> None) \<or> status st = ''failed'')"

text \<open>Session \<open>i\<close> is live: it exists and its \<^verbatim>\<open>cancelled\<close> variable is false.\<close>

definition live :: "world \<Rightarrow> nat \<Rightarrow> bool" where
  "live w i = (i < length (sessions w) \<and> \<not> cancelled (sessions w ! i))"

text \<open>The event applies a terminal status: the component is mounted, a status call of
  a live session is in flight, and it settles with a terminal outcome.\<close>

fun terminal_transition :: "world \<Rightarrow> poll_event \<Rightarrow> bool" where
  "terminal_transition w (StatusSettled i res) =
     (mounted w \<and> i \<in> set (pending_status w) \<and> live w i \<and> is_terminal res)"
| "terminal_transition w (Advance d) = False"
| "terminal_transition w Render = False"

fun terminal_count :: "translation_table \<Rightarrow> world \<Rightarrow> poll_event list \<Rightarrow> nat" where
  "terminal_count t w [] = 0"
| "terminal_count t w (e # es) =
     (if terminal_transition w e then 1 else 0) + terminal_count t (poll_step t e w) es"

text \<open>A session is stopped when its \<^verbatim>\<open>cancelled\<close> variable is true and its timer is
  cleared.\<close>

definition stopped :: "session \<Rightarrow> bool" where
  "stopped s = (cancelled s \<and> interval s = None)"

text \<open>
  The invariant of the sessions, which every event keeps: every session but the
  active one is stopped; the active session is mounted, not cancelled, has its timer
  registered, and belongs to the \<^verbatim>\<open>runId\<close> the effect last ran for.
\<close>

definition inv :: "world \<Rightarrow> bool" where
  "inv w =
     ((\<forall>i < length (sessions w). active w \<noteq> Some i \<longrightarrow> stopped (sessions w ! i))
      \<and> (\<forall>i. active w = Some i \<longrightarrow>
            i < length (sessions w) \<and> mounted w
            \<and> \<not> cancelled (sessions w ! i) \<and> interval (sessions w ! i) \<noteq> None
            \<and> sess_runId (sessions w ! i) \<noteq> []
            \<and> effect_deps w = Some (sess_runId (sessions w ! i))))"

text \<open>
  The same with the effect up to date: the effect has run for the current \<^verbatim>\<open>runId\<close>.
  This holds after every render, and until a callback sets another \<^verbatim>\<open>runId\<close>.
\<close>

definition wf :: "world \<Rightarrow> bool" where
  "wf w =
     (effect_deps w = runId (page w)
      \<and> (\<forall>i < length (sessions w). active w \<noteq> Some i \<longrightarrow> stopped (sessions w ! i))
      \<and> (\<forall>i. active w = Some i \<longrightarrow>
            i < length (sessions w) \<and> mounted w
            \<and> \<not> cancelled (sessions w ! i) \<and> interval (sessions w ! i) \<noteq> None
            \<and> sess_runId (sessions w ! i) \<noteq> []
            \<and> effect_deps w = Some (sess_runId (sessions w ! i))))"

text \<open>The settling of a submit call, among the events.\<close>

fun is_run_settled :: "event \<Rightarrow> bool" where
  "is_run_settled (RunSettled res) = True"
| "is_run_settled e = False"

subsection \<open>Example values\<close>

text \<open>A translation table, a mounted page with the category filled in, and the same
  page after a click on Run, a render, a successful submit answered with run \<open>r1\<close>, a
  render, and 2000 ms: one session, two status calls in flight.\<close>

definition example_table :: translation_table where
  "example_table =
     \<lparr>common_error = ''An error occurred'', common_required = ''Required'',
      common_success = ''Success'', logsStarting = ''started'',
      logsRequestSent = ''sent'', logsResponseReceived = ''received''\<rparr>"

definition shoes_world :: world where
  "shoes_world =
     initial_world\<lparr>page := initial_page\<lparr>category := ''shoes''\<rparr>,
                   rendered := initial_page\<lparr>category := ''shoes''\<rparr>\<rparr>"

definition polling_world :: world where
  "polling_world =
     run_events example_table
       [ClickRun, Poll Render, RunSettled (Inr \<lparr>start_run_id = ''r1''\<rparr>), Poll Render,
        Poll (Advance 2000)]
       shoes_world"

definition example_result :: OsukaRunResponse where
  "example_result =
     \<lparr>notebook_id = ''n1'', sources_added = 3, table_note_id = ''t1'',
      json_note_id = ''j1'', shopee_summary_note_id = None, shopee_data_note_id = None,
      shopee_count = None, chat_session_id = None, products = [],
      result_logs = None, markdown_table = None\<rparr>"

definition status_response ::
  "string \<Rightarrow> string list \<Rightarrow> OsukaRunResponse option \<Rightarrow> string option
     \<Rightarrow> OsukaRunStatusResponse" where
  "status_response s l r e = \<lparr>run_id = ''r1'', status = s, logs = l, result = r, error = e\<rparr>"

section \<open>Properties\<close>

subsection \<open>Timers\<close>

lemma fst_advance_sessions:
  "fst (advance_sessions T b ss) =
     map (\<lambda>s. case interval s of None \<Rightarrow> s
               | Some nxt \<Rightarrow> s\<lparr>interval := Some (nxt + 2000 * due_ticks nxt T)\<rparr>) ss"
proof (induction ss arbitrary: b)
  case Nil
  then show ?case by simp
next
  case (Cons s ss)
  have "fst (advance_sessions T (Suc b) ss) =
     map (\<lambda>s. case interval s of None \<Rightarrow> s
               | Some nxt \<Rightarrow> s\<lparr>interval := Some (nxt + 2000 * due_ticks nxt T)\<rparr>) ss"
    by (rule Cons.IH)
  then show ?case
    by (cases "advance_sessions T (Suc b) ss") (auto split: option.splits simp: Let_def)
qed

lemma advance_sessions_stopped:
  "\<forall>s \<in> set ss. interval s = None \<Longrightarrow> advance_sessions T b ss = (ss, [])"
  by (induction ss arbitrary: b) auto

lemma length_advance_sessions [simp]:
  "length (fst (advance_sessions T b ss)) = length ss"
  by (simp add: fst_advance_sessions)

lemma nth_advance_sessions:
  "i < length ss \<Longrightarrow>
     cancelled (fst (advance_sessions T b ss) ! i) = cancelled (ss ! i)
     \<and> sess_runId (fst (advance_sessions T b ss) ! i) = sess_runId (ss ! i)
     \<and> (interval (fst (advance_sessions T b ss) ! i) = None) = (interval (ss ! i) = None)"
  by (simp add: fst_advance_sessions split: option.splits)


subsection \<open>The invariant of the sessions\<close>

lemma wf_inv: "wf w = (inv w \<and> effect_deps w = runId (page w))"
  by (auto simp: wf_def inv_def)

lemma inv_fields:
  "mounted w' = mounted w \<Longrightarrow> sessions w' = sessions w \<Longrightarrow>
   active w' = active w \<Longrightarrow> effect_deps w' = effect_deps w \<Longrightarrow> inv w' = inv w"
  by (simp add: inv_def)

lemma inv_initial: "inv initial_world"
  by (simp add: inv_def initial_world_def)

lemma wf_initial: "wf initial_world"
  by (simp add: wf_def initial_world_def initial_page_def)

lemma inv_set_state: "inv w \<Longrightarrow> inv (set_state p w)"
  by (auto simp: set_state_def inv_def)

lemma inv_cleanup: "inv w \<Longrightarrow> inv (cleanup w)"
  unfolding inv_def cleanup_def stopped_def
  by (auto simp: nth_list_update split: option.splits)

lemma inv_unmount: "inv w \<Longrightarrow> inv (unmount w)"
  unfolding inv_def unmount_def cleanup_def stopped_def
  by (auto simp: nth_list_update split: option.splits)

lemma inv_render: "inv w \<Longrightarrow> inv (render w)"
  unfolding inv_def render_def run_effects_def effect_body_def cleanup_def poll_call_def stopped_def
  by (auto simp: Let_def nth_append nth_list_update split: option.splits)

lemma effect_deps_render: "mounted w \<Longrightarrow> effect_deps (render w) = runId (page (render w))"
  by (auto simp: render_def run_effects_def effect_body_def cleanup_def poll_call_def Let_def
      split: option.splits)

lemma wf_render: "inv w \<Longrightarrow> mounted w \<Longrightarrow> wf (render w)"
  by (simp add: wf_inv inv_render effect_deps_render)

lemma inv_advance: "inv w \<Longrightarrow> inv (advance d w)"
proof -
  assume w: "inv w"
  obtain ss calls where a: "advance_sessions (now w + d) 0 (sessions w) = (ss, calls)"
    by (cases "advance_sessions (now w + d) 0 (sessions w)")
  have ss: "ss = fst (advance_sessions (now w + d) 0 (sessions w))" using a by simp
  have n: "length ss = length (sessions w)" using ss by simp
  have k: "i < length (sessions w) \<Longrightarrow>
     cancelled (ss ! i) = cancelled (sessions w ! i)
     \<and> sess_runId (ss ! i) = sess_runId (sessions w ! i)
     \<and> (interval (ss ! i) = None) = (interval (sessions w ! i) = None)" for i
    unfolding ss by (rule nth_advance_sessions)
  have 2: "i < length ss \<Longrightarrow> active w \<noteq> Some i \<Longrightarrow> stopped (ss ! i)" for i
  proof -
    assume i: "i < length ss" "active w \<noteq> Some i"
    then have "stopped (sessions w ! i)" using w n by (auto simp: inv_def)
    then show ?thesis using k[of i] i n by (simp add: stopped_def)
  qed
  have 3: "active w = Some i \<Longrightarrow>
            i < length ss \<and> mounted w
            \<and> \<not> cancelled (ss ! i) \<and> interval (ss ! i) \<noteq> None
            \<and> sess_runId (ss ! i) \<noteq> []
            \<and> effect_deps w = Some (sess_runId (ss ! i))" for i
  proof -
    assume i: "active w = Some i"
    then have "i < length (sessions w) \<and> mounted w
            \<and> \<not> cancelled (sessions w ! i) \<and> interval (sessions w ! i) \<noteq> None
            \<and> sess_runId (sessions w ! i) \<noteq> []
            \<and> effect_deps w = Some (sess_runId (sessions w ! i))" using w by (auto simp: inv_def)
    then show ?thesis using k[of i] n by simp
  qed
  have "advance d w = w\<lparr>now := now w + d, sessions := ss,
           status_calls := status_calls w @ calls,
           pending_status := pending_status w @ map (\<lambda>c. fst (snd c)) calls\<rparr>"
    by (simp add: advance_def Let_def a)
  then show ?thesis using 2 3 by (auto simp: inv_def)
qed

lemma wf_advance: "wf w \<Longrightarrow> wf (advance d w)"
proof -
  assume w: "wf w"
  have "effect_deps (advance d w) = effect_deps w" "page (advance d w) = page w"
    by (simp_all add: advance_def Let_def split: prod.splits)
  then show ?thesis using w inv_advance[of w d] by (simp add: wf_inv)
qed

lemma inv_status_settled: "inv w \<Longrightarrow> inv (status_settled t i res w)"
proof -
  assume w: "inv w"
  have 1: "inv (w\<lparr>pending_status := remove1 i (pending_status w)\<rparr>)"
    using w by (auto simp: inv_def)
  show ?thesis
    unfolding status_settled_def using w 1
    by (auto simp: Let_def intro: inv_set_state split: option.splits)
qed

lemma inv_handleRun: "inv w \<Longrightarrow> inv (handleRun t w)"
proof -
  assume w: "inv w"
  have 1: "inv (w\<lparr>toasts := x\<rparr>)" for x using w by (auto simp: inv_def)
  have 2: "inv (w\<lparr>run_calls := x, pending_run := y\<rparr>)" for x y using w by (auto simp: inv_def)
  show ?thesis
    unfolding handleRun_def using 1 2 by (auto simp: Let_def intro: inv_set_state)
qed

lemma inv_handleRun_settled: "inv w \<Longrightarrow> inv (handleRun_settled t res w)"
proof -
  assume w: "inv w"
  have 1: "inv (w\<lparr>toasts := x\<rparr>)" for x using w by (auto simp: inv_def)
  show ?thesis
    unfolding handleRun_settled_def using 1
    by (auto simp: Let_def intro: inv_set_state split: sum.splits)
qed

lemma inv_poll_step: "inv w \<Longrightarrow> inv (poll_step t e w)"
  by (cases e) (simp_all add: inv_status_settled inv_advance inv_render)

lemma inv_step: "inv w \<Longrightarrow> inv (step t e w)"
proof (cases e)
  case (Poll pe)
  assume "inv w"
  then show ?thesis using Poll by (simp add: inv_poll_step)
next
  case ClickRun
  assume "inv w"
  then show ?thesis using ClickRun by (simp add: click_run_def inv_handleRun)
next
  case (RunSettled res)
  assume w: "inv w"
  have "inv (w\<lparr>pending_run := pending_run w - 1\<rparr>)" using w by (auto simp: inv_def)
  then show ?thesis using RunSettled w by (simp add: run_settled_def inv_handleRun_settled)
next
  case Unmount
  assume "inv w"
  then show ?thesis using Unmount by (simp add: inv_unmount)
qed

lemma inv_run_events: "inv w \<Longrightarrow> inv (run_events t es w)"
  unfolding run_events_def
  by (induction es arbitrary: w) (simp_all add: inv_step)

lemma inv_reachable: "inv (run_events t es initial_world)"
  by (rule inv_run_events) (rule inv_initial)

lemma inv_run_polls: "inv w \<Longrightarrow> inv (run_polls t es w)"
  unfolding run_polls_def
  by (induction es arbitrary: w) (simp_all add: inv_poll_step)

subsection \<open>Stopped sessions, terminal outcomes and the render\<close>

lemma page_run_effects [simp]: "page (run_effects w) = page w"
  by (simp add: run_effects_def effect_body_def cleanup_def poll_call_def Let_def
      split: option.splits)

lemma page_set_state: "page (set_state p w) = (if mounted w then p else page w)"
  by (simp add: set_state_def)

lemma page_render [simp]: "page (render w) = page w"
  by (simp add: render_def)

lemma poll_settled_True [simp]: "poll_settled t True res p = None"
  by (simp add: poll_settled_def split: sum.splits)

lemma stopped_poll_step:
  assumes "list_all stopped (sessions w)" "effect_deps w = runId (page w)"
  shows "page (poll_step t e w) = page w \<and> sessions (poll_step t e w) = sessions w
         \<and> status_calls (poll_step t e w) = status_calls w
         \<and> active (poll_step t e w) = active w
         \<and> mounted (poll_step t e w) = mounted w
         \<and> effect_deps (poll_step t e w) = effect_deps w
         \<and> \<not> terminal_transition w e"
proof (cases e)
  case (StatusSettled i res)
  have c: "i < length (sessions w) \<Longrightarrow> cancelled (sessions w ! i)"
    using assms(1) by (simp add: list_all_length stopped_def)
  then show ?thesis using StatusSettled
    by (auto simp: status_settled_def Let_def live_def)
next
  case (Advance d)
  have "\<forall>s \<in> set (sessions w). interval s = None"
    using assms(1) by (simp add: list_all_iff stopped_def)
  then have "advance_sessions (now w + d) 0 (sessions w) = (sessions w, [])"
    by (rule advance_sessions_stopped)
  then show ?thesis using Advance by (simp add: advance_def)
next
  case Render
  then show ?thesis using assms(2) by (simp add: render_def run_effects_def)
qed

lemma stopped_run_polls:
  "list_all stopped (sessions w) \<Longrightarrow> effect_deps w = runId (page w) \<Longrightarrow>
     page (run_polls t es w) = page w \<and> sessions (run_polls t es w) = sessions w
     \<and> status_calls (run_polls t es w) = status_calls w
     \<and> active (run_polls t es w) = active w
     \<and> terminal_count t w es = 0"
proof (induction es arbitrary: w)
  case Nil
  then show ?case by (simp add: run_polls_def)
next
  case (Cons e es)
  from stopped_poll_step[OF Cons.prems, of t e]
  have s: "page (poll_step t e w) = page w" "sessions (poll_step t e w) = sessions w"
    "status_calls (poll_step t e w) = status_calls w" "active (poll_step t e w) = active w"
    "effect_deps (poll_step t e w) = effect_deps w"
    "\<not> terminal_transition w e"
    by simp_all
  have "list_all stopped (sessions (poll_step t e w))"
    "effect_deps (poll_step t e w) = runId (page (poll_step t e w))"
    using Cons.prems s by simp_all
  from Cons.IH[OF this] show ?case using s by (simp add: run_polls_def)
qed

lemma live_is_active: "inv w \<Longrightarrow> live w i \<Longrightarrow> active w = Some i"
  by (auto simp: inv_def live_def stopped_def)

lemma is_terminal_settled:
  "is_terminal res \<Longrightarrow> \<exists>p'. poll_settled t False res p = Some p' \<and> runId p' = None
      \<and> rank (spec_status p') = 3"
  by (auto simp: is_terminal_def poll_settled_def spec_status_def Let_def split: sum.splits)

lemma render_clears:
  assumes "inv w" "active w = Some i" "runId (page w) = None"
  shows "page (render w) = page w \<and> active (render w) = None
    \<and> list_all stopped (sessions (render w))
    \<and> length (sessions (render w)) = length (sessions w)
    \<and> status_calls (render w) = status_calls w
    \<and> effect_deps (render w) = None \<and> mounted (render w)"
proof -
  have m: "mounted w" and i: "i < length (sessions w)"
    and d': "effect_deps w = Some (sess_runId (sessions w ! i))"
    using assms(1,2) unfolding inv_def by blast+
  have d: "effect_deps w \<noteq> None" using d' by simp
  have o: "j < length (sessions w) \<Longrightarrow> j \<noteq> i \<Longrightarrow> stopped (sessions w ! j)" for j
    using assms(1,2) unfolding inv_def by auto
  have c: "render w = w\<lparr>rendered := page w, effect_deps := None,
          sessions := (sessions w)[i := (sessions w ! i)\<lparr>cancelled := True, interval := None\<rparr>],
          active := None\<rparr>"
    using m d assms(2,3)
    by (auto simp: render_def run_effects_def cleanup_def effect_body_def)
  have "list_all stopped ((sessions w)[i := (sessions w ! i)\<lparr>cancelled := True, interval := None\<rparr>])"
    using o i by (auto simp: list_all_length nth_list_update stopped_def)
  then show ?thesis using m by (simp add: c)
qed

text \<open>A terminal outcome of a live session: what the settling does, and what the next
  render does.\<close>

lemma terminal_settles:
  assumes "inv w" "live w i" "i \<in> set (pending_status w)" "is_terminal res"
  shows "poll_settled t False res (page w) = Some (page (status_settled t i res w))
     \<and> runId (page (status_settled t i res w)) = None
     \<and> rank (spec_status (page (status_settled t i res w))) = 3
     \<and> sessions (status_settled t i res w) = sessions w
     \<and> active (status_settled t i res w) = Some i
     \<and> status_calls (status_settled t i res w) = status_calls w
     \<and> inv (status_settled t i res w)
     \<and> mounted w"
proof -
  obtain p' where p': "poll_settled t False res (page w) = Some p'" "runId p' = None"
     "rank (spec_status p') = 3"
    using is_terminal_settled[OF assms(4)] by blast
  have a: "active w = Some i" using assms(1,2) by (rule live_is_active)
  have m: "mounted w" using assms(1) a unfolding inv_def by blast
  have s: "status_settled t i res w =
      w\<lparr>pending_status := remove1 i (pending_status w), page := p'\<rparr>"
    using assms(2,3) p' m by (simp add: status_settled_def live_def Let_def set_state_def)
  have "inv (status_settled t i res w)" using assms(1) by (rule inv_status_settled)
  then show ?thesis using p' a m by (simp add: s)
qed

lemma terminal_then_render:
  assumes "inv w" "live w i" "i \<in> set (pending_status w)" "is_terminal res"
  shows "page (render (status_settled t i res w)) = page (status_settled t i res w)
     \<and> active (render (status_settled t i res w)) = None
     \<and> list_all stopped (sessions (render (status_settled t i res w)))
     \<and> length (sessions (render (status_settled t i res w))) = length (sessions w)
     \<and> status_calls (render (status_settled t i res w)) = status_calls w
     \<and> effect_deps (render (status_settled t i res w))
         = runId (page (render (status_settled t i res w)))"
proof -
  note s = terminal_settles[OF assms, of t]
  from s have 1: "inv (status_settled t i res w)" "active (status_settled t i res w) = Some i"
    "runId (page (status_settled t i res w)) = None" by simp_all
  from render_clears[OF 1] s show ?thesis by simp
qed

lemma rank_le_3: "rank s \<le> 3"
  by (cases s) simp_all

lemma rank_poll_step:
  "rank (spec_status (page w)) \<le> rank (spec_status (page (poll_step t e w)))"
proof (cases e)
  case (StatusSettled i res)
  show ?thesis
  proof (cases "cancelled (sessions w ! i)")
    case True
    then show ?thesis using StatusSettled
      by (simp add: status_settled_def Let_def)
  next
    case nc: False
    show ?thesis
    proof (cases "is_terminal res")
      case True
      then show ?thesis using StatusSettled nc is_terminal_settled[OF True, of t "page w"]
        by (auto simp: status_settled_def Let_def page_set_state rank_le_3 split: option.splits)
    next
      case False
      then show ?thesis using StatusSettled nc
        by (auto simp: status_settled_def Let_def page_set_state is_terminal_def poll_settled_def
            spec_status_def split: option.splits sum.splits if_splits)
    qed
  qed
next
  case (Advance d)
  then show ?thesis by (simp add: advance_def Let_def split: prod.splits)
next
  case Render
  then show ?thesis by simp
qed

lemma rank_run_polls:
  "rank (spec_status (page w)) \<le> rank (spec_status (page (run_polls t es w)))"
proof (induction es arbitrary: w)
  case Nil
  then show ?case by (simp add: run_polls_def)
next
  case (Cons e es)
  have "rank (spec_status (page w)) \<le> rank (spec_status (page (poll_step t e w)))"
    by (rule rank_poll_step)
  also have "\<dots> \<le> rank (spec_status (page (run_polls t es (poll_step t e w))))"
    by (rule Cons.IH)
  finally show ?case by (simp add: run_polls_def)
qed

lemma run_polls_append: "run_polls t (es1 @ es2) w = run_polls t es2 (run_polls t es1 w)"
  by (simp add: run_polls_def)

subsection \<open>The example values, evaluated\<close>

lemmas eval_defs =
  click_run_def handleRun_def handleRun_settled_def run_settled_def status_settled_def
  poll_settled_def set_state_def render_def run_effects_def effect_body_def cleanup_def poll_call_def
  advance_def due_ticks_def unmount_def run_events_def run_polls_def build_request_def
  parseInt10_def to_double_def bitlen.simps isFinite_def gt_zero_def trim_def is_ws_def
  is_digit_def digit_val_def digits_value_def split_comma_def or_else_def
  initial_world_def initial_page_def empty_RunState_def example_table_def shoes_world_def
  status_response_def Let_def

lemma ten_request:
  "build_request (page shoes_world) =
     \<lparr>req_category = ''shoes'', req_market = None, allow_external_brands = Some True,
      max_total = Some (Num 10), max_shopee_products = Some (Num 10),
      prefer_pdfs = Some False, preferred_brands = None\<rparr>"
  by (simp add: eval_defs)

lemma polling_world_eq:
  "polling_world =
     \<lparr>page =
        \<lparr>category = ''shoes'', market = [], allowExternal = True, preferPdfs = False,
         preferredBrands = [], maxTotal = ''10'', loading = False,
         runState = \<lparr>response = None, rs_error = None\<rparr>, debugOpen = True,
         localLogs = [''started'', ''sent'', ''received''], runId = Some ''r1'',
         runStatus = None\<rparr>,
      rendered =
        \<lparr>category = ''shoes'', market = [], allowExternal = True, preferPdfs = False,
         preferredBrands = [], maxTotal = ''10'', loading = False,
         runState = \<lparr>response = None, rs_error = None\<rparr>, debugOpen = True,
         localLogs = [''started'', ''sent'', ''received''], runId = Some ''r1'',
         runStatus = None\<rparr>,
      mounted = True,
      sessions = [\<lparr>sess_runId = ''r1'', cancelled = False, interval = Some 4000\<rparr>],
      active = Some 0, effect_deps = Some ''r1'', now = 2000,
      run_calls = [build_request (page shoes_world)],
      pending_run = 0, status_calls = [(0, 0, ''r1''), (2000, 0, ''r1'')],
      pending_status = [0, 0], toasts = [ToastSuccess ''Success'']\<rparr>"
  unfolding polling_world_def ten_request
  by (simp add: eval_defs)

lemma wf_polling_world: "wf polling_world"
  by (simp add: polling_world_eq wf_def stopped_def)

lemma wf_shoes_world: "wf shoes_world"
  by (simp add: shoes_world_def initial_world_def initial_page_def wf_def)

lemma inv_polling_world: "inv polling_world"
  using wf_polling_world by (simp add: wf_inv)

subsection \<open>The polling session\<close>

lemma nth_cancel:
  "i < length xs \<Longrightarrow> cancelled (xs ! i) \<Longrightarrow>
     cancelled (xs[j := (xs ! j)\<lparr>cancelled := True, interval := None\<rparr>] ! i)"
  by (cases "j < length xs") (auto simp: nth_list_update)

lemma cancelled_cleanup:
  "i < length (sessions w) \<Longrightarrow> cancelled (sessions w ! i) \<Longrightarrow>
     i < length (sessions (cleanup w)) \<and> cancelled (sessions (cleanup w) ! i)"
  by (auto simp: cleanup_def nth_cancel split: option.splits)

lemma cancelled_set_state:
  "i < length (sessions w) \<Longrightarrow> cancelled (sessions w ! i) \<Longrightarrow>
     i < length (sessions (set_state p w)) \<and> cancelled (sessions (set_state p w) ! i)"
  by (simp add: set_state_def)

lemma cancelled_render:
  "i < length (sessions w) \<Longrightarrow> cancelled (sessions w ! i) \<Longrightarrow>
     i < length (sessions (render w)) \<and> cancelled (sessions (render w) ! i)"
  by (auto simp: render_def run_effects_def effect_body_def cleanup_def poll_call_def Let_def
      nth_append nth_cancel split: option.splits)

lemma cancelled_step:
  assumes "i < length (sessions w)" "cancelled (sessions w ! i)"
  shows "i < length (sessions (step t e w)) \<and> cancelled (sessions (step t e w) ! i)"
proof (cases e)
  case (Poll pe)
  show ?thesis
  proof (cases pe)
    case (StatusSettled j res)
    have "i < length (sessions (set_state p' (w\<lparr>pending_status := x\<rparr>)))
        \<and> cancelled (sessions (set_state p' (w\<lparr>pending_status := x\<rparr>)) ! i)" for p' x
      using assms by (intro cancelled_set_state) simp_all
    then show ?thesis using Poll StatusSettled assms
      by (auto simp: status_settled_def Let_def split: option.splits)
  next
    case (Advance d)
    then show ?thesis using Poll assms nth_advance_sessions[OF assms(1), of "now w + d" 0]
      by (simp add: advance_def Let_def split: prod.splits)
        (metis fst_conv length_advance_sessions)
  next
    case Render
    then show ?thesis using Poll cancelled_render[OF assms] by simp
  qed
next
  case ClickRun
  have "i < length (sessions (set_state p' (w\<lparr>run_calls := x, pending_run := y\<rparr>)))
        \<and> cancelled (sessions (set_state p' (w\<lparr>run_calls := x, pending_run := y\<rparr>)) ! i)" for p' x y
    using assms by (intro cancelled_set_state) simp_all
  then show ?thesis using ClickRun assms
    by (auto simp: click_run_def handleRun_def Let_def)
next
  case (RunSettled res)
  have "i < length (sessions (set_state p' (w\<lparr>pending_run := y, toasts := x\<rparr>)))
        \<and> cancelled (sessions (set_state p' (w\<lparr>pending_run := y, toasts := x\<rparr>)) ! i)" for p' x y
    using assms by (intro cancelled_set_state) simp_all
  then show ?thesis using RunSettled assms
    by (auto simp: run_settled_def handleRun_settled_def Let_def split: sum.splits)
next
  case Unmount
  then show ?thesis using cancelled_cleanup[OF assms] by (simp add: unmount_def)
qed

lemma cancelled_run_events:
  "i < length (sessions w) \<Longrightarrow> cancelled (sessions w ! i) \<Longrightarrow>
     i < length (sessions (run_events t es w)) \<and> cancelled (sessions (run_events t es w) ! i)"
proof (induction es arbitrary: w)
  case Nil
  then show ?case by (simp add: run_events_def)
next
  case (Cons e es)
  from cancelled_step[OF Cons.prems, of t e]
  have "i < length (sessions (step t e w))" "cancelled (sessions (step t e w) ! i)" by simp_all
  from Cons.IH[OF this] show ?case by (simp add: run_events_def)
qed

lemma settled_when_cancelled:
  "i < length (sessions w) \<Longrightarrow> cancelled (sessions w ! i) \<Longrightarrow>
     status_settled t i res w = w\<lparr>pending_status := remove1 i (pending_status w)\<rparr>"
  by (simp add: status_settled_def Let_def remove1_idem)

text \<open>
  C2. Once the \<^verbatim>\<open>cancelled\<close> flag of a session is set it stays set, whatever happens
  next; a status call of that session that settles afterwards, with a response or
  with an error, calls no state setter: the component state, the sessions and their
  timers, and the calls issued are unchanged, only the call is no longer in flight.
  The cleanup of the effect (on a change of \<^verbatim>\<open>runId\<close>, and on unmount) sets the flag
  and clears the timer of its session.
\<close>

theorem cancelled_response_discarded:
  assumes "i < length (sessions w)" and "cancelled (sessions w ! i)"
    and "w' = run_events t es w"
  shows "i < length (sessions w') \<and> cancelled (sessions w' ! i)
     \<and> poll_settled t True res (page w') = None
     \<and> status_settled t i res w' = w'\<lparr>pending_status := remove1 i (pending_status w')\<rparr>
     \<and> (\<forall>w0. active w0 = Some i \<and> i < length (sessions w0) \<longrightarrow>
           cancelled (sessions (cleanup w0) ! i) \<and> interval (sessions (cleanup w0) ! i) = None
           \<and> cancelled (sessions (unmount w0) ! i) \<and> interval (sessions (unmount w0) ! i) = None)"
proof -
  have 1: "i < length (sessions w')" "cancelled (sessions w' ! i)"
    using cancelled_run_events[OF assms(1,2), of t es] assms(3) by simp_all
  have 2: "status_settled t i res w' = w'\<lparr>pending_status := remove1 i (pending_status w')\<rparr>"
    using 1 by (rule settled_when_cancelled)
  have 3: "active w0 = Some i \<and> i < length (sessions w0) \<longrightarrow>
           cancelled (sessions (cleanup w0) ! i) \<and> interval (sessions (cleanup w0) ! i) = None
           \<and> cancelled (sessions (unmount w0) ! i) \<and> interval (sessions (unmount w0) ! i) = None" for w0
    by (simp add: cleanup_def unmount_def)
  show ?thesis using 1 2 3 by simp
qed

theorem cancelled_response_discarded_witness:
  "0 < length (sessions (unmount polling_world))
   \<and> cancelled (sessions (unmount polling_world) ! 0)
   \<and> 0 \<in> set (pending_status (run_events example_table [Poll (Advance 3000)] (unmount polling_world)))
   \<and> status_settled example_table 0
        (Inr (status_response ''completed'' [] (Some example_result) None))
        (run_events example_table [Poll (Advance 3000)] (unmount polling_world))
       = (run_events example_table [Poll (Advance 3000)] (unmount polling_world))
           \<lparr>pending_status := [0]\<rparr>
   \<and> cancelled (sessions (cleanup polling_world) ! 0)"
proof -
  have 1: "0 < length (sessions (unmount polling_world))"
    "cancelled (sessions (unmount polling_world) ! 0)"
    by (simp_all add: polling_world_eq unmount_def cleanup_def)
  have 2: "pending_status (run_events example_table [Poll (Advance 3000)] (unmount polling_world))
      = [0, 0]"
    by (simp add: polling_world_eq unmount_def cleanup_def run_events_def advance_def)
  have 3: "active polling_world = Some 0 \<and> 0 < length (sessions polling_world)"
    by (simp add: polling_world_eq)
  from cancelled_response_discarded[OF 1 refl, of example_table "[Poll (Advance 3000)]"
      "Inr (status_response ''completed'' [] (Some example_result) None)"] 1 2 3
  show ?thesis by simp
qed








text \<open>
  C4 says that after a thrown status call no further status fetch is issued in the
  session. The catch branch calls \<^verbatim>\<open>setRunState\<close> and \<^verbatim>\<open>setRunId(null)\<close> and leaves
  \<^verbatim>\<open>cancelled\<close> false and the timer registered until React runs the cleanup. With one
  session and two status calls in flight at time 2000: the first call throws, and
  \<^verbatim>\<open>runId\<close> is cleared, but the session is still live with its timer due at 4000;
  when 2000 ms pass before the render, the timer fires and a third status call is
  issued; and when the second call settles before the render with a completed run, its
  result replaces the error.
\<close>

theorem poll_error_then_tick_fetches_again:
  "runId (page (run_polls example_table
        [StatusSettled 0 (Inl (Error ''Network Error''))] polling_world)) = None
   \<and> runState (page (run_polls example_table
        [StatusSettled 0 (Inl (Error ''Network Error''))] polling_world))
       = \<lparr>response = None, rs_error = Some ''Network Error''\<rparr>
   \<and> live (run_polls example_table
        [StatusSettled 0 (Inl (Error ''Network Error''))] polling_world) 0
   \<and> interval (sessions (run_polls example_table
        [StatusSettled 0 (Inl (Error ''Network Error''))] polling_world) ! 0) = Some 4000
   \<and> status_calls (run_polls example_table
        [StatusSettled 0 (Inl (Error ''Network Error''))] polling_world)
       = [(0, 0, ''r1''), (2000, 0, ''r1'')]
   \<and> status_calls (run_polls example_table
        [StatusSettled 0 (Inl (Error ''Network Error'')), Advance 2000] polling_world)
       = [(0, 0, ''r1''), (2000, 0, ''r1''), (4000, 0, ''r1'')]
   \<and> runState (page (run_polls example_table
        [StatusSettled 0 (Inl (Error ''Network Error'')),
         StatusSettled 0 (Inr (status_response ''completed'' [] (Some example_result) None))]
        polling_world))
       = \<lparr>response = Some example_result, rs_error = None\<rparr>"
  by (simp add: polling_world_eq run_polls_def status_settled_def poll_settled_def
      set_state_def advance_def due_ticks_def live_def status_response_def Let_def)

text \<open>
  C4, amended. When a status call of a live session throws, the run fails with the
  message of the thrown \<^verbatim>\<open>Error\<close> (or \<^verbatim>\<open>t.common.error\<close> for any other thrown value)
  and \<^verbatim>\<open>runId\<close> is cleared, with no status call issued by the catch branch. At the
  next render React runs the cleanup: the session is stopped (flag set, timer
  cleared), and from then on no status call is issued and no poll event changes the
  component state: there is no retry.
\<close>

theorem poll_transport_error_fails_run:
  assumes "inv w" "live w i" "i \<in> set (pending_status w)"
    and "w1 = status_settled t i (Inl err) w" and "w2 = render w1"
  shows "page w1 = (page w)\<lparr>runState := \<lparr>response = None,
              rs_error = Some (case err of Error m \<Rightarrow> m | NonError \<Rightarrow> common_error t)\<rparr>,
            runId := None\<rparr>
     \<and> spec_status (page w1) = Failed
     \<and> status_calls w1 = status_calls w
     \<and> page w2 = page w1
     \<and> active w2 = None \<and> stopped (sessions w2 ! i) \<and> list_all stopped (sessions w2)
     \<and> status_calls (run_polls t es w2) = status_calls w
     \<and> page (run_polls t es w2) = page w1"
proof -
  have t: "is_terminal (Inl err)" by (simp add: is_terminal_def)
  have p: "poll_settled t False (Inl err) (page w) =
      Some ((page w)\<lparr>runState := \<lparr>response = None,
              rs_error = Some (case err of Error m \<Rightarrow> m | NonError \<Rightarrow> common_error t)\<rparr>,
            runId := None\<rparr>)"
    by (simp add: poll_settled_def)
  from terminal_settles[OF assms(1-3) t, of t] assms(4) p
  have 1: "page w1 = (page w)\<lparr>runState := \<lparr>response = None,
              rs_error = Some (case err of Error m \<Rightarrow> m | NonError \<Rightarrow> common_error t)\<rparr>,
            runId := None\<rparr>"
    and sc1: "status_calls w1 = status_calls w"
    by simp_all
  from terminal_then_render[OF assms(1-3) t, of t] assms(4,5)
  have 2: "page w2 = page w1" "active w2 = None" "list_all stopped (sessions w2)"
      "length (sessions w2) = length (sessions w)" "status_calls w2 = status_calls w"
      "effect_deps w2 = runId (page w2)"
    by simp_all
  have 3: "spec_status (page w1) = Failed" using 1 by (simp add: spec_status_def)
  have 4: "stopped (sessions w2 ! i)"
    using 2(3,4) assms(2) by (simp add: list_all_length live_def)
  from stopped_run_polls[OF 2(3,6), of t es]
  have 5: "status_calls (run_polls t es w2) = status_calls w2"
    "page (run_polls t es w2) = page w2" by simp_all
  show ?thesis using 1 sc1 2 3 4 5 by simp
qed

theorem poll_transport_error_fails_run_witness:
  "inv polling_world \<and> live polling_world 0 \<and> 0 \<in> set (pending_status polling_world)
   \<and> runState (page (status_settled example_table 0 (Inl (Error ''Network Error'')) polling_world))
       = \<lparr>response = None, rs_error = Some ''Network Error''\<rparr>
   \<and> runId (page (status_settled example_table 0 (Inl (Error ''Network Error'')) polling_world))
       = None
   \<and> stopped (sessions (render (status_settled example_table 0 (Inl (Error ''Network Error''))
        polling_world)) ! 0)
   \<and> status_calls (run_polls example_table
        [StatusSettled 0 (Inr (status_response ''running'' [] None None)), Advance 10000]
        (render (status_settled example_table 0 (Inl (Error ''Network Error'')) polling_world)))
       = [(0, 0, ''r1''), (2000, 0, ''r1'')]
   \<and> runState (page (run_polls example_table
        [StatusSettled 0 (Inr (status_response ''completed'' [] (Some example_result) None)),
         Advance 10000]
        (render (status_settled example_table 0 (Inl (Error ''Network Error'')) polling_world))))
       = \<lparr>response = None, rs_error = Some ''Network Error''\<rparr>"
proof -
  have 1: "live polling_world 0" "0 \<in> set (pending_status polling_world)"
    by (simp_all add: polling_world_eq live_def)
  have sc: "status_calls polling_world = [(0, 0, ''r1''), (2000, 0, ''r1'')]"
    by (simp add: polling_world_eq)
  note a = poll_transport_error_fails_run[OF inv_polling_world 1 refl refl, of example_table
      "Error ''Network Error''"
      "[StatusSettled 0 (Inr (status_response ''running'' [] None None)), Advance 10000]"]
  note b = poll_transport_error_fails_run[OF inv_polling_world 1 refl refl, of example_table
      "Error ''Network Error''"
      "[StatusSettled 0 (Inr (status_response ''completed'' [] (Some example_result) None)),
         Advance 10000]"]
  from a b inv_polling_world 1 sc show ?thesis by auto
qed

text \<open>
  C1 says that once a terminal status has been applied nothing changes the state and
  exactly one terminal transition occurs. The branches that apply a terminal status
  call \<^verbatim>\<open>setRunId(null)\<close>; \<^verbatim>\<open>cancelled\<close> is set and the timer cleared only when React
  runs the cleanup. With one session and two status calls in flight: the first settles
  with a completed run, the second settles before the render with a failed run, and
  both are applied: the timer is still registered after the first, and the stored
  result is replaced by an error.
\<close>

theorem second_terminal_status_is_applied:
  "spec_status (page (run_polls example_table
        [StatusSettled 0 (Inr (status_response ''completed'' [''queued'', ''done'']
                                 (Some example_result) None))] polling_world)) = Completed
   \<and> runState (page (run_polls example_table
        [StatusSettled 0 (Inr (status_response ''completed'' [''queued'', ''done'']
                                 (Some example_result) None))] polling_world))
       = \<lparr>response = Some example_result, rs_error = None\<rparr>
   \<and> interval (sessions (run_polls example_table
        [StatusSettled 0 (Inr (status_response ''completed'' [''queued'', ''done'']
                                 (Some example_result) None))] polling_world) ! 0) = Some 4000
   \<and> runState (page (run_polls example_table
        [StatusSettled 0 (Inr (status_response ''completed'' [''queued'', ''done'']
                                 (Some example_result) None)),
         StatusSettled 0 (Inr (status_response ''failed'' [''queued''] None None))]
        polling_world))
       = \<lparr>response = None, rs_error = Some ''An error occurred''\<rparr>
   \<and> spec_status (page (run_polls example_table
        [StatusSettled 0 (Inr (status_response ''completed'' [''queued'', ''done'']
                                 (Some example_result) None)),
         StatusSettled 0 (Inr (status_response ''failed'' [''queued''] None None))]
        polling_world)) = Failed
   \<and> terminal_count example_table polling_world
        [StatusSettled 0 (Inr (status_response ''completed'' [''queued'', ''done'']
                                 (Some example_result) None)),
         StatusSettled 0 (Inr (status_response ''failed'' [''queued''] None None))] = 2"
  by (simp add: polling_world_eq run_polls_def status_settled_def poll_settled_def
      set_state_def live_def is_terminal_def spec_status_def status_response_def
      or_else_def example_table_def Let_def)

text \<open>
  C1, amended. Over any sequence of poll events (a status call settles, time passes,
  React re-renders) the status of the run never decreases in the order idle <
  submitting < polling < completed, failed. When an event applies a terminal status
  (completed with a result, failed, or a thrown error), \<^verbatim>\<open>runId\<close> is cleared and the
  status is terminal; once React has then re-rendered and run the cleanup, every
  session is stopped (flag set, timer cleared), and no later poll event changes the
  component state, issues a status call or applies another terminal status: in such a
  sequence exactly one terminal transition occurs.
\<close>

theorem terminal_status_is_final_after_render:
  assumes "inv w"
  shows "rank (spec_status (page (run_polls t es1 w)))
           \<le> rank (spec_status (page (run_polls t (es1 @ es2) w)))
     \<and> (terminal_transition w e \<longrightarrow>
          runId (page (poll_step t e w)) = None
          \<and> rank (spec_status (page (poll_step t e w))) = 3
          \<and> page (render (poll_step t e w)) = page (poll_step t e w)
          \<and> active (render (poll_step t e w)) = None
          \<and> list_all stopped (sessions (render (poll_step t e w)))
          \<and> terminal_count t (render (poll_step t e w)) es = 0
          \<and> terminal_count t w (e # Render # es) = 1
          \<and> page (run_polls t (e # Render # es) w) = page (poll_step t e w)
          \<and> sessions (run_polls t (e # Render # es) w) = sessions (render (poll_step t e w))
          \<and> status_calls (run_polls t (e # Render # es) w) = status_calls w)"
proof -
  have 1: "rank (spec_status (page (run_polls t es1 w)))
           \<le> rank (spec_status (page (run_polls t (es1 @ es2) w)))"
    unfolding run_polls_append by (rule rank_run_polls)
  have 3: "runId (page (poll_step t e w)) = None
          \<and> rank (spec_status (page (poll_step t e w))) = 3
          \<and> page (render (poll_step t e w)) = page (poll_step t e w)
          \<and> active (render (poll_step t e w)) = None
          \<and> list_all stopped (sessions (render (poll_step t e w)))
          \<and> terminal_count t (render (poll_step t e w)) es = 0
          \<and> terminal_count t w (e # Render # es) = 1
          \<and> page (run_polls t (e # Render # es) w) = page (poll_step t e w)
          \<and> sessions (run_polls t (e # Render # es) w) = sessions (render (poll_step t e w))
          \<and> status_calls (run_polls t (e # Render # es) w) = status_calls w"
    if tt: "terminal_transition w e"
  proof -
    obtain i res where e: "e = StatusSettled i res" "i \<in> set (pending_status w)"
      "live w i" "is_terminal res"
      using tt by (cases e) simp_all
    from terminal_settles[OF assms e(3,2,4), of t]
    have a: "runId (page (poll_step t e w)) = None"
      "rank (spec_status (page (poll_step t e w))) = 3"
      using e(1) by simp_all
    from terminal_then_render[OF assms e(3,2,4), of t]
    have b: "page (render (poll_step t e w)) = page (poll_step t e w)"
      "active (render (poll_step t e w)) = None"
      "list_all stopped (sessions (render (poll_step t e w)))"
      "status_calls (render (poll_step t e w)) = status_calls w"
      "effect_deps (render (poll_step t e w)) = runId (page (render (poll_step t e w)))"
      using e(1) by simp_all
    have r: "run_polls t (e # Render # es) w = run_polls t es (render (poll_step t e w))"
      by (simp add: run_polls_def)
    have c: "terminal_count t w (e # Render # es)
        = 1 + terminal_count t (render (poll_step t e w)) es"
      using tt by simp
    from stopped_run_polls[OF b(3,5), of t es] show ?thesis
      using a b unfolding r c by simp
  qed
  show ?thesis using 1 3 by blast
qed

theorem terminal_status_is_final_after_render_witness:
  "inv polling_world
   \<and> terminal_transition polling_world
        (StatusSettled 0 (Inr (status_response ''completed'' [''queued'', ''done'']
                                 (Some example_result) None)))
   \<and> rank (spec_status (page (run_polls example_table [Advance 100] polling_world)))
        \<le> rank (spec_status (page (run_polls example_table
             ([Advance 100] @
              [StatusSettled 0 (Inr (status_response ''completed'' [''queued'', ''done'']
                                       (Some example_result) None))]) polling_world)))
   \<and> terminal_count example_table polling_world
        [StatusSettled 0 (Inr (status_response ''completed'' [''queued'', ''done'']
                                 (Some example_result) None)),
         Render,
         StatusSettled 0 (Inr (status_response ''failed'' [''queued''] None None)),
         Advance 4000] = 1
   \<and> page (run_polls example_table
        [StatusSettled 0 (Inr (status_response ''completed'' [''queued'', ''done'']
                                 (Some example_result) None)),
         Render,
         StatusSettled 0 (Inr (status_response ''failed'' [''queued''] None None)),
         Advance 4000] polling_world)
       = (page polling_world)
           \<lparr>runStatus := Some (status_response ''completed'' [''queued'', ''done'']
                                 (Some example_result) None),
            runState := \<lparr>response = Some example_result, rs_error = None\<rparr>,
            runId := None\<rparr>
   \<and> status_calls (run_polls example_table
        [StatusSettled 0 (Inr (status_response ''completed'' [''queued'', ''done'']
                                 (Some example_result) None)),
         Render,
         StatusSettled 0 (Inr (status_response ''failed'' [''queued''] None None)),
         Advance 4000] polling_world)
       = [(0, 0, ''r1''), (2000, 0, ''r1'')]"
proof -
  let ?e = "StatusSettled 0 (Inr (status_response ''completed'' [''queued'', ''done'']
                                 (Some example_result) None))"
  let ?es = "[StatusSettled 0 (Inr (status_response ''failed'' [''queued''] None None)),
         Advance 4000]"
  have tt: "terminal_transition polling_world ?e"
    by (simp add: polling_world_eq live_def is_terminal_def status_response_def)
  have ps: "page (poll_step example_table ?e polling_world) = (page polling_world)
           \<lparr>runStatus := Some (status_response ''completed'' [''queued'', ''done'']
                                 (Some example_result) None),
            runState := \<lparr>response = Some example_result, rs_error = None\<rparr>,
            runId := None\<rparr>"
    by (simp add: polling_world_eq status_settled_def poll_settled_def status_response_def
        set_state_def Let_def)
  have sc: "status_calls polling_world = [(0, 0, ''r1''), (2000, 0, ''r1'')]"
    by (simp add: polling_world_eq)
  from terminal_status_is_final_after_render[OF inv_polling_world,
      where t = example_table and ?es1.0 = "[Advance 100]" and ?es2.0 = "[?e]"
        and es = ?es and e = ?e]
    tt ps sc inv_polling_world
  show ?thesis by simp
qed

subsection \<open>The Run button\<close>

lemma run_calls_set_state [simp]: "run_calls (set_state p w) = run_calls w"
  by (simp add: set_state_def)

lemma mounted_set_state [simp]: "mounted (set_state p w) = mounted w"
  by (simp add: set_state_def)

lemma rendered_set_state [simp]: "rendered (set_state p w) = rendered w"
  by (simp add: set_state_def)

lemma run_calls_render [simp]: "run_calls (render w) = run_calls w"
  by (simp add: render_def run_effects_def effect_body_def cleanup_def poll_call_def Let_def
      split: option.splits)

lemma mounted_render [simp]: "mounted (render w) = mounted w"
  by (simp add: render_def run_effects_def effect_body_def cleanup_def poll_call_def Let_def
      split: option.splits)

lemma rendered_render: "rendered (render w) = (if mounted w then page w else rendered w)"
  by (simp add: render_def run_effects_def effect_body_def cleanup_def poll_call_def Let_def
      split: option.splits)

lemma loading_step:
  assumes "loading (page w)" "loading (rendered w)" "\<not> is_run_settled e"
  shows "loading (page (step t e w)) \<and> loading (rendered (step t e w))
     \<and> run_calls (step t e w) = run_calls w"
proof (cases e)
  case (Poll pe)
  show ?thesis
  proof (cases pe)
    case (StatusSettled i res)
    have "poll_settled t c res (page w) = Some p' \<Longrightarrow> loading p'" for c p'
      using assms(1)
      by (auto simp: poll_settled_def Let_def split: sum.splits if_splits)
    then show ?thesis using Poll StatusSettled assms(1,2)
      by (auto simp: status_settled_def Let_def page_set_state split: option.splits)
  next
    case (Advance d)
    then show ?thesis using Poll assms(1,2)
      by (simp add: advance_def Let_def split: prod.splits)
  next
    case Render
    then show ?thesis using Poll assms(1,2) by (simp add: rendered_render)
  qed
next
  case ClickRun
  then show ?thesis using assms(1,2) by (simp add: click_run_def)
next
  case (RunSettled res)
  then show ?thesis using assms(3) by simp
next
  case Unmount
  then show ?thesis using assms(1,2) by (simp add: unmount_def cleanup_def split: option.splits)
qed

lemma loading_run_events:
  "loading (page w) \<Longrightarrow> loading (rendered w) \<Longrightarrow> list_all (\<lambda>e. \<not> is_run_settled e) es \<Longrightarrow>
     loading (page (run_events t es w)) \<and> loading (rendered (run_events t es w))
     \<and> run_calls (run_events t es w) = run_calls w"
proof (induction es arbitrary: w)
  case Nil
  then show ?case by (simp add: run_events_def)
next
  case (Cons e es)
  from Cons.prems have e: "\<not> is_run_settled e" and es: "list_all (\<lambda>e. \<not> is_run_settled e) es"
    by simp_all
  from loading_step[OF Cons.prems(1,2) e, of t]
  have s: "loading (page (step t e w))" "loading (rendered (step t e w))"
    "run_calls (step t e w) = run_calls w" by simp_all
  from Cons.IH[OF s(1,2) es] show ?case using s(3) by (simp add: run_events_def)
qed

subsection \<open>\<^verbatim>\<open>parseInt\<close> and \<^verbatim>\<open>max_total\<close> on examples\<close>

lemma parseInt10_examples:
  "parseInt10 '''' = NaN"
  "parseInt10 ''abc'' = NaN"
  "parseInt10 ''0'' = Num 0"
  "parseInt10 ''-5'' = Num (- 5)"
  "parseInt10 ''12abc'' = Num 12"
  "parseInt10 '' 42'' = Num 42"
  "parseInt10 ''3.7'' = Num 3"
  "parseInt10 ''9007199254740993'' = Num 9007199254740992"
  by (simp_all add: eval_defs)

lemma max_total_examples:
  "max_total (build_request (initial_page\<lparr>maxTotal := ''''\<rparr>)) = Some (Num 10)"
  "max_total (build_request (initial_page\<lparr>maxTotal := ''0''\<rparr>)) = Some (Num 10)"
  "max_total (build_request (initial_page\<lparr>maxTotal := ''-5''\<rparr>)) = Some (Num 10)"
  "max_total (build_request (initial_page\<lparr>maxTotal := ''abc''\<rparr>)) = Some (Num 10)"
  "max_total (build_request (initial_page\<lparr>maxTotal := ''25''\<rparr>)) = Some (Num 25)"
  by (simp_all add: eval_defs)

lemma bitlen_bounds: "n < 2 ^ bitlen n \<and> (0 < n \<longrightarrow> 2 ^ (bitlen n - 1) \<le> n)"
proof (induction n rule: bitlen.induct)
  case (1 n)
  show ?case
  proof (cases "n = 0")
    case True
    then show ?thesis by (simp add: bitlen.simps)
  next
    case False
    with 1 have ih: "n div 2 < 2 ^ bitlen (n div 2)"
      "0 < n div 2 \<longrightarrow> 2 ^ (bitlen (n div 2) - 1) \<le> n div 2" by simp_all
    have b: "bitlen n = Suc (bitlen (n div 2))" using False by (subst bitlen.simps) simp
    have "n < 2 * 2 ^ bitlen (n div 2)" using ih(1) by linarith
    moreover have "2 ^ bitlen (n div 2) \<le> n"
    proof (cases "n div 2 = 0")
      case True
      then have "n = 1" using False by linarith
      then show ?thesis by (simp add: bitlen.simps)
    next
      case nz: False
      then have "0 < bitlen (n div 2)" by (subst bitlen.simps) simp
      then have "(2::nat) ^ bitlen (n div 2) = 2 * 2 ^ (bitlen (n div 2) - 1)"
        by (cases "bitlen (n div 2)") simp_all
      then show ?thesis using ih(2) nz by linarith
    qed
    ultimately show ?thesis using b by simp
  qed
qed

lemma to_double_overflow:
  assumes "2 ^ 1024 \<le> n"
  shows "to_double n = None"
proof -
  let ?k = "bitlen n"
  let ?sh = "?k - 53"
  have lt: "n < 2 ^ ?k" using bitlen_bounds by blast
  have k: "1024 < ?k"
  proof (rule ccontr)
    assume "\<not> 1024 < ?k"
    then have "?k \<le> 1024" by simp
    then have "(2::nat) ^ ?k \<le> 2 ^ 1024" by (intro power_increasing) simp_all
    with lt assms show False by linarith
  qed
  have n0: "0 < n" using assms by (meson less_le_trans zero_less_numeral zero_less_power)
  have lo: "2 ^ (?k - 1) \<le> n" using bitlen_bounds n0 by blast
  have e: "(2::nat) ^ (?k - 1) = 2 ^ 52 * 2 ^ ?sh"
  proof -
    have "?k - 1 = 52 + ?sh" using k by simp
    then show ?thesis by (simp only: power_add)
  qed
  have q: "2 ^ 52 \<le> n div 2 ^ ?sh"
  proof -
    have "(2 ^ 52 * 2 ^ ?sh) div 2 ^ ?sh \<le> n div 2 ^ ?sh"
      using lo e by (intro div_le_mono) simp
    then show ?thesis by simp
  qed
  have s: "(2::nat) ^ 972 \<le> 2 ^ ?sh" using k by (intro power_increasing) simp_all
  have "(2::nat) ^ 1024 = 2 ^ 52 * 2 ^ 972" by (simp only: power_add[symmetric]) simp
  also have "\<dots> \<le> (n div 2 ^ ?sh) * 2 ^ ?sh" using q s by (rule mult_le_mono)
  finally have v: "2 ^ 1024 \<le> (n div 2 ^ ?sh) * 2 ^ ?sh" .
  have v': "2 ^ 1024 \<le> (n div 2 ^ ?sh + 1) * 2 ^ ?sh"
    using v by (simp add: add_mult_distrib)
  show ?thesis using k v v' by (simp add: to_double_def Let_def)
qed

lemma foldl_digits_zeros:
  "foldl (\<lambda>a c. 10 * a + digit_val c) a (replicate n (CHR ''0'')) = a * 10 ^ n"
  by (induction n arbitrary: a) (simp_all add: digit_val_def)

lemma parseInt10_overflow:
  "parseInt10 (CHR ''1'' # replicate 309 (CHR ''0'')) = PosInfinity"
proof -
  have "digit_val (CHR ''1'') = 1" by (simp add: digit_val_def)
  then have d: "digits_value (CHR ''1'' # replicate 309 (CHR ''0'')) = 10 ^ 309"
    unfolding digits_value_def foldl_Cons foldl_digits_zeros by simp
  have "(2::nat) ^ 1024 \<le> 10 ^ 309" by simp
  then have "to_double (10 ^ 309) = None" by (rule to_double_overflow)
  then show ?thesis
    using d by (simp add: parseInt10_def is_ws_def is_digit_def takeWhile_replicate Let_def)
qed

lemma max_total_overflow:
  "max_total (build_request (p\<lparr>maxTotal := CHR ''1'' # replicate 309 (CHR ''0'')\<rparr>))
     = Some (Num 10)"
  by (simp add: build_request_def parseInt10_overflow isFinite_def gt_zero_def Let_def)

subsection \<open>Submission\<close>

text \<open>
  C3 says that a second call of \<^verbatim>\<open>handleRun\<close> while the first submit call is in
  flight issues no second submit call. \<^verbatim>\<open>handleRun\<close> does not look at \<^verbatim>\<open>loading\<close>,
  and the button is disabled only from the next render on: on the page with category
  \<open>shoes\<close>, the first click leaves \<^verbatim>\<open>loading\<close> set and one submit call in flight,
  and a second click before the render calls \<^verbatim>\<open>handleRun\<close> again, which issues a
  second submit call.
\<close>

theorem two_clicks_before_render_submit_twice:
  "loading (page (run_events example_table [ClickRun] shoes_world))
   \<and> \<not> loading (rendered (run_events example_table [ClickRun] shoes_world))
   \<and> pending_run (run_events example_table [ClickRun] shoes_world) = 1
   \<and> run_calls (run_events example_table [ClickRun] shoes_world)
       = [build_request (page shoes_world)]
   \<and> run_calls (run_events example_table [ClickRun, ClickRun] shoes_world)
       = [build_request (page shoes_world), build_request (page shoes_world)]
   \<and> pending_run (run_events example_table [ClickRun, ClickRun] shoes_world) = 2
   \<and> run_calls (handleRun example_table (handleRun example_table shoes_world))
       = [build_request (page shoes_world), build_request (page shoes_world)]"
  unfolding ten_request
  by (simp add: eval_defs)

text \<open>
  C3, amended. \<^verbatim>\<open>handleRun\<close> rejects no call: every call with a non-blank category
  issues one submit call. The guard against a second submission is the
  \<^verbatim>\<open>disabled={loading}\<close> of the button: a click on the enabled Run button with a
  non-blank category issues one submit call and sets \<^verbatim>\<open>loading\<close>; once React has
  re-rendered, and until the submit call settles, the button shows \<^verbatim>\<open>loading\<close>, a
  click changes nothing, and no further submit call is issued, whatever other events
  happen in between.
\<close>

theorem run_button_guards_after_render:
  assumes "mounted w" "\<not> loading (rendered w)" "trim (category (page w)) \<noteq> []"
    and "list_all (\<lambda>e. \<not> is_run_settled e) es"
    and "w1 = click_run t w" and "w2 = render w1"
  shows "run_calls w1 = run_calls w @ [build_request (page w)]
     \<and> pending_run w1 = Suc (pending_run w)
     \<and> loading (page w1)
     \<and> loading (rendered w2)
     \<and> click_run t w2 = w2
     \<and> loading (rendered (run_events t es w2))
     \<and> run_calls (run_events t es w2) = run_calls w @ [build_request (page w)]
     \<and> (\<forall>w0. trim (category (page w0)) \<noteq> [] \<longrightarrow>
           run_calls (handleRun t w0) = run_calls w0 @ [build_request (page w0)])"
proof -
  have 1: "run_calls w1 = run_calls w @ [build_request (page w)]"
    and 2: "loading (page w1)" and 3: "pending_run w1 = Suc (pending_run w)"
    and m: "mounted w1"
    using assms(1,2,3,5)
    by (simp_all add: click_run_def handleRun_def Let_def set_state_def)
  have 4: "loading (page w2)" "loading (rendered w2)" "run_calls w2 = run_calls w1"
    using 2 m assms(6) by (simp_all add: rendered_render)
  have 5: "click_run t w2 = w2" using 4 by (simp add: click_run_def)
  have 6: "trim (category (page w0)) \<noteq> [] \<longrightarrow>
           run_calls (handleRun t w0) = run_calls w0 @ [build_request (page w0)]" for w0
    by (simp add: handleRun_def Let_def)
  from loading_run_events[OF 4(1,2) assms(4), of t] show ?thesis using 1 2 3 4 5 6 by simp
qed

theorem run_button_guards_after_render_witness:
  "mounted shoes_world \<and> \<not> loading (rendered shoes_world)
   \<and> trim (category (page shoes_world)) \<noteq> []
   \<and> run_calls (click_run example_table shoes_world) = [build_request (page shoes_world)]
   \<and> click_run example_table (render (click_run example_table shoes_world))
       = render (click_run example_table shoes_world)
   \<and> run_calls (run_events example_table [ClickRun, Poll (Advance 500), ClickRun, Poll Render]
        (render (click_run example_table shoes_world))) = [build_request (page shoes_world)]
   \<and> run_calls (run_events example_table [ClickRun, Poll Render, ClickRun] shoes_world)
       = [build_request (page shoes_world)]"
proof -
  have 1: "mounted shoes_world" "\<not> loading (rendered shoes_world)"
    "trim (category (page shoes_world)) \<noteq> []"
    by (simp_all add: shoes_world_def initial_world_def initial_page_def trim_def is_ws_def)
  have 2: "list_all (\<lambda>e. \<not> is_run_settled e) [ClickRun, Poll (Advance 500), ClickRun, Poll Render]"
    "list_all (\<lambda>e. \<not> is_run_settled e) [ClickRun]"
    by simp_all
  have 3: "run_calls shoes_world = []" by (simp add: shoes_world_def initial_world_def)
  have 4: "run_events example_table [ClickRun, Poll Render, ClickRun] shoes_world
      = run_events example_table [ClickRun] (render (click_run example_table shoes_world))"
    by (simp add: run_events_def)
  from run_button_guards_after_render[OF 1 2(1) refl refl, of example_table]
    run_button_guards_after_render[OF 1 2(2) refl refl, of example_table] 1 3
  show ?thesis unfolding 4 by simp
qed

text \<open>
  C8. Every submit call carries a \<^verbatim>\<open>max_total\<close> that is a positive integer: the value
  \<^verbatim>\<open>Number.parseInt(maxTotal, 10)\<close> when that is a finite number greater than 0, and
  10 in every other case (NaN, zero, negative, infinite).
\<close>

theorem max_total_sent_is_positive:
  assumes "trim (category (page w)) \<noteq> []"
  shows "\<exists>req n. run_calls (handleRun t w) = run_calls w @ [req]
     \<and> max_total req = Some (Num n) \<and> 0 < n
     \<and> n = (case parseInt10 (maxTotal (page w)) of
              Num k \<Rightarrow> if 0 < k then k else 10
            | _ \<Rightarrow> 10)"
proof -
  have 1: "run_calls (handleRun t w) = run_calls w @ [build_request (page w)]"
    using assms by (simp add: handleRun_def Let_def)
  have 2: "max_total (build_request (page w)) =
      Some (Num (case parseInt10 (maxTotal (page w)) of
              Num k \<Rightarrow> if 0 < k then k else 10
            | _ \<Rightarrow> 10))"
    by (simp add: build_request_def Let_def isFinite_def gt_zero_def split: js_number.splits)
  have 3: "0 < (case parseInt10 (maxTotal (page w)) of
              Num k \<Rightarrow> if 0 < k then k else 10
            | _ \<Rightarrow> (10::int))"
    by (simp split: js_number.splits)
  show ?thesis using 1 2 3 by blast
qed

theorem max_total_sent_is_positive_witness:
  "trim (category (page (shoes_world\<lparr>page := (page shoes_world)\<lparr>maxTotal := ''25''\<rparr>\<rparr>))) \<noteq> []
   \<and> (\<exists>req n. run_calls (handleRun example_table
                  (shoes_world\<lparr>page := (page shoes_world)\<lparr>maxTotal := ''25''\<rparr>\<rparr>)) = [req]
        \<and> max_total req = Some (Num n) \<and> 0 < n \<and> n = 25)"
proof -
  let ?w = "shoes_world\<lparr>page := (page shoes_world)\<lparr>maxTotal := ''25''\<rparr>\<rparr>"
  have 1: "trim (category (page ?w)) \<noteq> []"
    by (simp add: shoes_world_def initial_world_def initial_page_def trim_def is_ws_def)
  have 2: "run_calls ?w = []" by (simp add: shoes_world_def initial_world_def)
  have 3: "parseInt10 (maxTotal (page ?w)) = Num 25"
    by (simp add: eval_defs)
  from max_total_sent_is_positive[OF 1, of example_table] 1 2 3
  show ?thesis by simp
qed

text \<open>
  C7. The log panel shows the local log lines followed by the log lines of the latest
  status response applied, each in its own order, nothing removed or reordered. The
  local lines are the submission milestones in the order \<^verbatim>\<open>handleRun\<close> appends them:
  starting, request sent, and response received once the submit call has succeeded.
\<close>

theorem displayed_logs_local_then_remote:
  "displayed_logs p = localLogs p @ remote_logs p
   \<and> remote_logs (p\<lparr>runStatus := Some st\<rparr>) = logs st
   \<and> (\<exists>p'. poll_settled t False (Inr st) p = Some p' \<and> localLogs p' = localLogs p
           \<and> displayed_logs p' = localLogs p @ logs st)
   \<and> (mounted w \<and> trim (category (page w)) \<noteq> [] \<longrightarrow>
        localLogs (page (handleRun t w)) = [logsStarting t, logsRequestSent t]
        \<and> localLogs (page (handleRun_settled t (Inr r) (handleRun t w)))
            = [logsStarting t, logsRequestSent t, logsResponseReceived t]
        \<and> localLogs (page (handleRun_settled t (Inl err) (handleRun t w)))
            = [logsStarting t, logsRequestSent t])"
proof -
  have 1: "displayed_logs q = localLogs q @ remote_logs q" for q
    by (auto simp: displayed_logs_def logs_card_shown_def)
  have 2: "remote_logs (p\<lparr>runStatus := Some st\<rparr>) = logs st"
    by (simp add: remote_logs_def)
  have 3: "\<exists>p'. poll_settled t False (Inr st) p = Some p' \<and> localLogs p' = localLogs p
           \<and> displayed_logs p' = localLogs p @ logs st"
    by (auto simp: poll_settled_def Let_def 1 remote_logs_def)
  have 4: "localLogs (page (handleRun t w)) = [logsStarting t, logsRequestSent t]
        \<and> localLogs (page (handleRun_settled t (Inr r) (handleRun t w)))
            = [logsStarting t, logsRequestSent t, logsResponseReceived t]
        \<and> localLogs (page (handleRun_settled t (Inl err) (handleRun t w)))
            = [logsStarting t, logsRequestSent t]"
    if "mounted w" "trim (category (page w)) \<noteq> []"
    using that by (simp add: handleRun_def handleRun_settled_def Let_def page_set_state)
  show ?thesis using 1 2 3 4 by blast
qed

theorem displayed_logs_local_then_remote_witness:
  "displayed_logs (initial_page\<lparr>localLogs := [''started'', ''sent''],
       runStatus := Some (status_response ''running'' [''queued'', ''done''] None None)\<rparr>)
     = [''started'', ''sent'', ''queued'', ''done'']
   \<and> mounted shoes_world \<and> trim (category (page shoes_world)) \<noteq> []
   \<and> localLogs (page (handleRun_settled example_table (Inr \<lparr>start_run_id = ''r1''\<rparr>)
        (handleRun example_table shoes_world))) = [''started'', ''sent'', ''received'']"
proof -
  have 1: "mounted shoes_world" "trim (category (page shoes_world)) \<noteq> []"
    by (simp_all add: shoes_world_def initial_world_def initial_page_def trim_def is_ws_def)
  have 2: "localLogs (initial_page\<lparr>localLogs := [''started'', ''sent''],
       runStatus := Some (status_response ''running'' [''queued'', ''done''] None None)\<rparr>)
      = [''started'', ''sent'']"
    "remote_logs (initial_page\<lparr>localLogs := [''started'', ''sent''],
       runStatus := Some (status_response ''running'' [''queued'', ''done''] None None)\<rparr>)
      = [''queued'', ''done'']"
    by (simp_all add: remote_logs_def status_response_def)
  from displayed_logs_local_then_remote[of
      "initial_page\<lparr>localLogs := [''started'', ''sent''],
       runStatus := Some (status_response ''running'' [''queued'', ''done''] None None)\<rparr>"
      _ example_table shoes_world "\<lparr>start_run_id = ''r1''\<rparr>"] 1 2
  show ?thesis by (simp add: example_table_def)
qed

subsection \<open>The start of a session\<close>

lemma advance_sessions_last:
  assumes "\<forall>x \<in> set ss. interval x = None" "interval s = Some nxt"
  shows "advance_sessions T b (ss @ [s]) =
     (ss @ [s\<lparr>interval := Some (nxt + 2000 * due_ticks nxt T)\<rparr>],
      map (\<lambda>j. (nxt + 2000 * j, b + length ss, sess_runId s)) [0..<due_ticks nxt T])"
  using assms by (induction ss arbitrary: b) (simp_all add: Let_def)

lemma due_ticks_first: "due_ticks (n + 2000) (n + d) = d div 2000"
  by (simp add: due_ticks_def le_div_geq)

lemma map_upt_Suc_shift: "map f [0..<Suc n] = f 0 # map (\<lambda>j. f (Suc j)) [0..<n]"
  by (simp add: map_upt_Suc del: upt_Suc)

lemma stopped_after_cleanup:
  assumes "inv w"
  shows "\<forall>x \<in> set (sessions (cleanup w)). interval x = None"
proof -
  have "inv (cleanup w)" using assms by (rule inv_cleanup)
  moreover have "active (cleanup w) = None" by (simp add: cleanup_def split: option.splits)
  ultimately have "\<forall>i < length (sessions (cleanup w)). stopped (sessions (cleanup w) ! i)"
    by (simp add: inv_def)
  then show ?thesis by (auto simp: in_set_conv_nth stopped_def)
qed

lemma length_cleanup [simp]: "length (sessions (cleanup w)) = length (sessions w)"
  by (simp add: cleanup_def split: option.splits)


text \<open>
  C5. When a state update sets a new non-empty \<^verbatim>\<open>runId\<close>, the session that starts
  at the render of that update issues its first status call at once, at the time of
  the start, and registers its timer 2000 ms later; as time passes, the status calls
  are issued exactly at the multiples of 2000 ms after the start.
\<close>

theorem first_check_immediate_then_every_2000:
  assumes "wf w" "mounted w" "runId p = Some rid" "rid \<noteq> []" "runId (page w) \<noteq> Some rid"
  shows "status_calls (render (set_state p w)) = status_calls w @ [(now w, length (sessions w), rid)]
     \<and> active (render (set_state p w)) = Some (length (sessions w))
     \<and> sessions (render (set_state p w)) = sessions (cleanup w) @
          [\<lparr>sess_runId = rid, cancelled = False, interval = Some (now w + 2000)\<rparr>]
     \<and> status_calls (advance d (render (set_state p w))) =
         status_calls w @
           map (\<lambda>k. (now w + 2000 * k, length (sessions w), rid)) [0..<Suc (d div 2000)]"
proof -
  let ?s = "\<lparr>sess_runId = rid, cancelled = False, interval = Some (now w + 2000)\<rparr>"
  have d: "effect_deps w \<noteq> Some rid" using assms(1,5) by (auto simp: wf_def)
  have i: "inv w" using assms(1) by (simp add: wf_inv)
  have c: "render (set_state p w) =
      (cleanup w)\<lparr>page := p, rendered := p, effect_deps := Some rid,
        sessions := sessions (cleanup w) @ [?s],
        active := Some (length (sessions w)),
        status_calls := status_calls w @ [(now w, length (sessions w), rid)],
        pending_status := pending_status w @ [length (sessions w)]\<rparr>"
    using assms(2,3,4) d
    by (simp add: render_def set_state_def run_effects_def effect_body_def poll_call_def Let_def
        cleanup_def split: option.splits)
  have n: "now (cleanup w) = now w" by (simp add: cleanup_def split: option.splits)
  have a: "advance_sessions (now w + d) 0 (sessions (cleanup w) @ [?s]) =
     (sessions (cleanup w) @ [?s\<lparr>interval := Some (now w + 2000 + 2000 * (d div 2000))\<rparr>],
      map (\<lambda>j. (now w + 2000 + 2000 * j, length (sessions w), rid)) [0..<d div 2000])"
    using advance_sessions_last[OF stopped_after_cleanup[OF i], of ?s "now w + 2000" "now w + d" 0]
    by (simp add: due_ticks_first)
  have "status_calls (advance d (render (set_state p w))) =
     (status_calls w @ [(now w, length (sessions w), rid)]) @
      map (\<lambda>j. (now w + 2000 + 2000 * j, length (sessions w), rid)) [0..<d div 2000]"
    unfolding c by (simp add: advance_def n a)
  also have "\<dots> = status_calls w @
           map (\<lambda>k. (now w + 2000 * k, length (sessions w), rid)) [0..<Suc (d div 2000)]"
    unfolding map_upt_Suc_shift by simp
  finally show ?thesis using c by simp
qed

theorem first_check_immediate_then_every_2000_witness:
  "wf shoes_world \<and> mounted shoes_world \<and> runId (page shoes_world) \<noteq> Some ''r1''
   \<and> status_calls (render (set_state ((page shoes_world)\<lparr>runId := Some ''r1''\<rparr>) shoes_world))
       = [(0, 0, ''r1'')]
   \<and> status_calls (advance 4500 (render (set_state ((page shoes_world)\<lparr>runId := Some ''r1''\<rparr>) shoes_world)))
       = [(0, 0, ''r1''), (2000, 0, ''r1''), (4000, 0, ''r1'')]"
proof -
  have 1: "mounted shoes_world" "runId (page shoes_world) \<noteq> Some ''r1''"
    "status_calls shoes_world = []" "now shoes_world = 0" "sessions shoes_world = []"
    by (simp_all add: shoes_world_def initial_world_def initial_page_def)
  have 2: "runId ((page shoes_world)\<lparr>runId := Some ''r1''\<rparr>) = Some ''r1''" "''r1'' \<noteq> []"
    by simp_all
  have 3: "[0..<Suc (4500 div 2000)] = [0, 1, 2]"
    by (simp add: upt_rec)
  from first_check_immediate_then_every_2000[OF wf_shoes_world 1(1) 2 1(2), of 4500]
    wf_shoes_world 1 3
  show ?thesis by simp
qed

subsection \<open>The notebook-columns store\<close>

text \<open>
  C10. In the notebook-columns store every operation changes only its own flag: the
  sources operations leave \<open>notesCollapsed\<close> and \<open>marketCollapsed\<close> as they are, the
  notes operations leave \<open>sourcesCollapsed\<close> and \<open>marketCollapsed\<close>, the market
  operations leave \<open>sourcesCollapsed\<close> and \<open>notesCollapsed\<close>; a setter stores its
  argument, a toggle negates its flag, and a toggle applied twice gives the state back.
\<close>

theorem columns_frame:
  "toggleSources s = s\<lparr>sourcesCollapsed := \<not> sourcesCollapsed s\<rparr>
   \<and> toggleNotes s = s\<lparr>notesCollapsed := \<not> notesCollapsed s\<rparr>
   \<and> toggleMarket s = s\<lparr>marketCollapsed := \<not> marketCollapsed s\<rparr>
   \<and> setSources b s = s\<lparr>sourcesCollapsed := b\<rparr>
   \<and> setNotes b s = s\<lparr>notesCollapsed := b\<rparr>
   \<and> setMarket b s = s\<lparr>marketCollapsed := b\<rparr>
   \<and> notesCollapsed (toggleSources s) = notesCollapsed s
   \<and> marketCollapsed (toggleSources s) = marketCollapsed s
   \<and> notesCollapsed (setSources b s) = notesCollapsed s
   \<and> marketCollapsed (setSources b s) = marketCollapsed s
   \<and> sourcesCollapsed (toggleNotes s) = sourcesCollapsed s
   \<and> marketCollapsed (toggleNotes s) = marketCollapsed s
   \<and> sourcesCollapsed (setNotes b s) = sourcesCollapsed s
   \<and> marketCollapsed (setNotes b s) = marketCollapsed s
   \<and> sourcesCollapsed (toggleMarket s) = sourcesCollapsed s
   \<and> notesCollapsed (toggleMarket s) = notesCollapsed s
   \<and> sourcesCollapsed (setMarket b s) = sourcesCollapsed s
   \<and> notesCollapsed (setMarket b s) = notesCollapsed s
   \<and> toggleSources (toggleSources s) = s
   \<and> toggleNotes (toggleNotes s) = s
   \<and> toggleMarket (toggleMarket s) = s"
  by (simp add: toggleSources_def toggleNotes_def toggleMarket_def setSources_def
      setNotes_def setMarket_def set_columns_def)

end
